theory Spec2Isabelle
  imports Complex_Main
begin

section \<open>The SV4D sampling script \<open>simple_video_sample_4d.py\<close>\<close>

text \<open>
  The function \<open>sample\<close> of \<open>scripts/sampling/simple_video_sample_4d.py\<close> fills a grid
  \<open>img_matrix\<close> of \<open>n_frames \<times> n_views\<close> optional images by calls to pretrained models.
  The models, the tensor library and the floating-point arithmetic are parameters of the
  embedding; the index arithmetic, the loops, the guards and the raised errors are
  translated line by line.
\<close>

subsection \<open>Model configuration (lines 46--56)\<close>

definition T :: nat where "T = 5"
definition V :: nat where "V = 8"
definition n_frames :: nat where "n_frames = 21"
definition n_views :: nat where "n_views = V + 1"
definition n_views_sv3d :: nat where "n_views_sv3d = 21"
definition subsampled_views :: "nat list" where
  "subsampled_views = [0, 2, 5, 7, 9, 12, 14, 16, 19]"
definition v0 :: nat where "v0 = 0"

lemmas model_config = T_def V_def n_frames_def n_views_def n_views_sv3d_def
  subsampled_views_def v0_def

subsection \<open>Python and numpy primitives\<close>

datatype error =
    AssertionError string
  | TypeError
  | IndexError
  | RuntimeError
  | ReadError string

text \<open>\<open>np.arange(start, stop, step)\<close> on non-negative integers. The script only calls it
  with a positive step; for step 0 numpy raises, which no call of the script reaches.\<close>

function arange :: "nat \<Rightarrow> nat \<Rightarrow> nat \<Rightarrow> nat list" where
  "arange start stop step =
     (if 0 < step \<and> start < stop then start # arange (start + step) stop step else [])"
  by pat_completeness auto
termination
  by (relation "measure (\<lambda>(start, stop, step). stop - start)") auto

declare arange.simps [simp del]

text \<open>\<open>range(n)\<close> for a Python int: empty when \<open>n \<le> 0\<close>.\<close>

definition range :: "int \<Rightarrow> int list" where
  "range n = map int [0..<nat n]"

text \<open>\<open>xs[i]\<close> on data of unknown length raises \<open>IndexError\<close> out of range.\<close>

definition getitem :: "'a list \<Rightarrow> nat \<Rightarrow> error + 'a" where
  "getitem xs i = (if i < length xs then Inr (xs ! i) else Inl IndexError)"

text \<open>\<open>torch.roll(x, 1, 0)\<close>: the last entry along dimension 0 moves to the front.\<close>

definition roll1 :: "'a list \<Rightarrow> 'a list" where
  "roll1 xs = (if xs = [] then [] else last xs # butlast xs)"

text \<open>\<open>torch.cat(list, 0)\<close> of a list read from the grid: a \<open>None\<close> entry is a \<open>TypeError\<close>.\<close>

definition cat :: "'t option list \<Rightarrow> error + 't list" where
  "cat xs = (if None \<in> set xs then Inl TypeError else Inr (map the xs))"

text \<open>\<open>samples.view(a, b, ...)\<close> of a batch of \<open>a * b\<close> tensors; any other batch size is a
  \<open>RuntimeError\<close>. Entry \<open>[i, j]\<close> of the result is \<open>! i ! j\<close>.\<close>

definition view2 :: "nat \<Rightarrow> nat \<Rightarrow> 'a list \<Rightarrow> error + 'a list list" where
  "view2 a b xs =
     (if length xs = a * b then Inr (map (\<lambda>i. take b (drop (i * b) xs)) [0..<a])
      else Inl RuntimeError)"

text \<open>Decimal printing and zero padding, for \<open>f"{n}"\<close> and \<open>f"{n:06d}"\<close>.\<close>

function str_nat :: "nat \<Rightarrow> string" where
  "str_nat n =
     (if n < 10 then [''0123456789'' ! n]
      else str_nat (n div 10) @ [''0123456789'' ! (n mod 10)])"
  by pat_completeness auto
termination
  by (relation "measure id") auto

declare str_nat.simps [simp del]

definition zfill :: "nat \<Rightarrow> string \<Rightarrow> string" where
  "zfill w s = replicate (w - length s) (CHR ''0'') @ s"

text \<open>\<open>glob(os.path.join(output_folder, "*.mp4"))\<close> over the names in the output folder:
  the names that end in \<open>.mp4\<close> and do not start with a dot.\<close>

definition is_mp4 :: "string \<Rightarrow> bool" where
  "is_mp4 name =
     (4 \<le> length name \<and> drop (length name - 4) name = ''.mp4'' \<and> take 1 name \<noteq> ''.'')"

definition glob_mp4 :: "string list \<Rightarrow> string list" where
  "glob_mp4 names = filter is_mp4 names"

subsection \<open>Arguments, external operations and program state\<close>

text \<open>\<open>elevations_deg: Optional[Union[float, List[float]]]\<close>\<close>

datatype 'f elevations = ElevNone | ElevScalar 'f | ElevList "'f list"

text \<open>The keyword arguments of \<open>sample\<close>.\<close>

record 'f config =
  input_path :: string
  output_folder :: string
  num_steps :: int
  sv3d_version :: string
  fps_id :: int
  motion_bucket_id :: int
  cond_aug :: 'f
  seed :: int
  decoding_t :: int
  device :: string
  elevations_deg :: "'f elevations"
  azimuths_deg :: "'f list option"
  image_frame_ratio :: "'f option"
  verbose :: bool
  remove_bg :: bool

text \<open>Floating-point arithmetic of Python and numpy, uninterpreted: \<open>f_lit n\<close> is the
  literal \<open>n\<close>, \<open>f_sub\<close> is \<open>-\<close>, \<open>f_mod\<close> is \<open>%\<close>, \<open>two_pi\<close> is \<open>torch.pi * 2\<close>, and
  \<open>linspace_pt a b n k\<close> is entry \<open>k\<close> of \<open>np.linspace(a, b, n)\<close>.\<close>

record 'f float_ops =
  f_lit :: "int \<Rightarrow> 'f"
  f_sub :: "'f \<Rightarrow> 'f \<Rightarrow> 'f"
  f_mod :: "'f \<Rightarrow> 'f \<Rightarrow> 'f"
  deg2rad :: "'f \<Rightarrow> 'f"
  two_pi :: 'f
  linspace_pt :: "int \<Rightarrow> int \<Rightarrow> nat \<Rightarrow> nat \<Rightarrow> 'f"

text \<open>The helpers imported from \<open>scripts.demo.sv4d_helpers\<close> and the tensor operations, as
  parameters. \<open>'t\<close> is the type of tensors (images and latents), \<open>'r\<close> the state of torch's
  global random generator, which every model call may advance. Each function receives the
  keyword arguments it is passed unchanged through the \<open>config\<close>. \<open>unsqueeze\<close> is
  \<open>x.unsqueeze(0)\<close> and \<open>x[None]\<close>; \<open>scale_shift\<close> is \<open>x * 2 - 1\<close>.\<close>

record ('t, 'f, 'r) helpers =
  manual_seed :: "int \<Rightarrow> 'r"
  read_video :: "'f config \<Rightarrow> error + 't list"
  sample_sv3d :: "'f config \<Rightarrow> 't \<Rightarrow> 'f list \<Rightarrow> 'f list \<Rightarrow> 'r \<Rightarrow> 't list \<times> 'r"
  run_img2vid ::
    "'f config \<Rightarrow> 't option \<Rightarrow> 'f list \<Rightarrow> 'f list \<Rightarrow> 't list \<Rightarrow> 't list \<Rightarrow> 'r \<Rightarrow> 't list \<times> 'r"
  run_img2vid_per_step ::
    "'f config \<Rightarrow> 't option \<Rightarrow> 'f list \<Rightarrow> 'f list \<Rightarrow> 't list \<Rightarrow> 't list \<Rightarrow> int \<Rightarrow> 't list
       \<Rightarrow> 'r \<Rightarrow> 't list \<times> 'r"
  decode_latents :: "'f config \<Rightarrow> 't \<Rightarrow> 'r \<Rightarrow> 't \<times> 'r"
  randn :: "nat \<Rightarrow> nat \<Rightarrow> 'r \<Rightarrow> 't list list \<times> 'r"
  unsqueeze :: "'t \<Rightarrow> 't"
  scale_shift :: "'t \<Rightarrow> 't"

text \<open>What a run does that can be observed: the calls to the diffusion models with their
  conditioning inputs, and the assignments to grid slots, in program order.\<close>

datatype ('t, 'f) event =
    Sample_sv3d 't "'f list" "'f list"
  | Run_img2vid "'t option" "'f list" "'f list" "'t list" "'t list"
  | Run_img2vid_per_step "'t option" "'f list" "'f list" "'t list" "'t list" int "'t list"
  | Decode_latents 't
  | Fill nat nat 't

fun is_diffusion_call :: "('t, 'f) event \<Rightarrow> bool" where
  "is_diffusion_call (Fill t v x) = False"
| "is_diffusion_call e = True"

text \<open>The mutable variables of \<open>sample\<close> and the random generator, with the trace.\<close>

record ('t, 'f, 'r) state =
  rng :: 'r
  trace :: "('t, 'f) event list"
  img_matrix :: "'t option list list"
  latent_matrix :: "'t list list"
  frame_indices :: "nat list"

text \<open>A \<open>for\<close> statement whose body may raise: the loop stops at the first error, keeping
  the state reached.\<close>

fun for_loop ::
  "'a list \<Rightarrow> ('a \<Rightarrow> 's \<Rightarrow> (error + unit) \<times> 's) \<Rightarrow> 's \<Rightarrow> (error + unit) \<times> 's" where
  "for_loop [] body s = (Inr (), s)"
| "for_loop (x # xs) body s =
     (case body x s of
        (Inl e, s') \<Rightarrow> (Inl e, s')
      | (Inr u, s') \<Rightarrow> for_loop xs body s')"

text \<open>\<open>img_matrix[t][v] = x\<close>\<close>

definition set_slot :: "nat \<Rightarrow> nat \<Rightarrow> 't \<Rightarrow> ('t, 'f, 'r) state \<Rightarrow> ('t, 'f, 'r) state" where
  "set_slot t v x s =
     s\<lparr>img_matrix := (img_matrix s)[t := (img_matrix s ! t)[v := Some x]],
       trace := trace s @ [Fill t v x]\<rparr>"

text \<open>\<open>latent_matrix[t, v] = x\<close>\<close>

definition set_latent :: "nat \<Rightarrow> nat \<Rightarrow> 't \<Rightarrow> ('t, 'f, 'r) state \<Rightarrow> ('t, 'f, 'r) state" where
  "set_latent t v x s =
     s\<lparr>latent_matrix := (latent_matrix s)[t := (latent_matrix s ! t)[v := x]]\<rparr>"

text \<open>The output folder: \<open>folder\<close> is its listing, \<open>saved\<close> the calls of \<open>save_video\<close> of this
  run (file name, frames), in order.\<close>

record 't outputs =
  folder :: "string list"
  saved :: "(string \<times> 't option list) list"

definition initial_outputs :: "string list \<Rightarrow> 't outputs" where
  "initial_outputs files = \<lparr>folder = files, saved = []\<rparr>"

text \<open>\<open>save_video(os.path.join(output_folder, name), frames)\<close>\<close>

definition save_video :: "string \<Rightarrow> 't option list \<Rightarrow> 't outputs \<Rightarrow> 't outputs" where
  "save_video name frames out =
     out\<lparr>saved := saved out @ [(name, frames)], folder := List.insert name (folder out)\<rparr>"

text \<open>A stage of the run returns the raised error or its local values, the state reached
  and the output folder.\<close>

definition state_of :: "'a \<times> 's \<times> 'o \<Rightarrow> 's" where
  "state_of r = fst (snd r)"


subsection \<open>Camera viewpoints (lines 100--114)\<close>

definition elevations_msg :: "nat \<Rightarrow> string" where
  "elevations_msg n =
     ''Please provide 1 value, or a list of '' @ str_nat n_views_sv3d
       @ '' values for elevations_deg! Given '' @ str_nat n"

definition azimuths_msg :: "nat \<Rightarrow> string" where
  "azimuths_msg n =
     ''Please provide a list of '' @ str_nat n_views_sv3d
       @ '' values for azimuths_deg! Given '' @ str_nat n"

definition camera_viewpoints ::
  "'f float_ops \<Rightarrow> 'f config \<Rightarrow> error + ('f list \<times> 'f list)" where
  "camera_viewpoints fo cfg =
     (case (case elevations_deg cfg of
              ElevNone \<Rightarrow> Inl TypeError
            | ElevScalar e \<Rightarrow> Inr (replicate n_views_sv3d e)
            | ElevList es \<Rightarrow> Inr es) of
        Inl e \<Rightarrow> Inl e
      | Inr elevs \<Rightarrow>
          if length elevs \<noteq> n_views_sv3d
          then Inl (AssertionError (elevations_msg (length elevs)))
          else
            let azims =
              (case azimuths_deg cfg of
                 None \<Rightarrow>
                   map (\<lambda>a. f_mod fo a (f_lit fo 360))
                     (tl (map (linspace_pt fo 0 360 (n_views_sv3d + 1))
                            [0..<n_views_sv3d + 1]))
               | Some az \<Rightarrow> az)
            in if length azims \<noteq> n_views_sv3d
               then Inl (AssertionError (azimuths_msg (length azims)))
               else
                 Inr (map (\<lambda>e. deg2rad fo (f_sub fo (f_lit fo 90) e)) elevs,
                      map (\<lambda>a. deg2rad fo (f_mod fo (f_sub fo a (last azims)) (f_lit fo 360)))
                        azims))"


subsection \<open>Calls to the models\<close>

definition initial_state :: "('t, 'f, 'r) helpers \<Rightarrow> 'f config \<Rightarrow> ('t, 'f, 'r) state" where
  "initial_state hp cfg =
     \<lparr>rng = manual_seed hp (seed cfg), trace = [],
      img_matrix = [], latent_matrix = [], frame_indices = []\<rparr>"

definition call_sample_sv3d ::
  "('t, 'f, 'r) helpers \<Rightarrow> 'f config \<Rightarrow> 't \<Rightarrow> 'f list \<Rightarrow> 'f list \<Rightarrow> ('t, 'f, 'r) state
     \<Rightarrow> 't list \<times> ('t, 'f, 'r) state" where
  "call_sample_sv3d hp cfg cond_image polars azims s =
     (let (images, r) = sample_sv3d hp cfg cond_image polars azims (rng s)
      in (images, s\<lparr>rng := r, trace := trace s @ [Sample_sv3d cond_image polars azims]\<rparr>))"

definition call_run_img2vid ::
  "('t, 'f, 'r) helpers \<Rightarrow> 'f config \<Rightarrow> 't option \<Rightarrow> 'f list \<Rightarrow> 'f list \<Rightarrow> 't list \<Rightarrow> 't list
     \<Rightarrow> ('t, 'f, 'r) state \<Rightarrow> 't list \<times> ('t, 'f, 'r) state" where
  "call_run_img2vid hp cfg cond_image polars azims cond_motion cond_view s =
     (let (samples, r) = run_img2vid hp cfg cond_image polars azims cond_motion cond_view (rng s)
      in (samples,
          s\<lparr>rng := r,
            trace := trace s @ [Run_img2vid cond_image polars azims cond_motion cond_view]\<rparr>))"

definition call_run_img2vid_per_step ::
  "('t, 'f, 'r) helpers \<Rightarrow> 'f config \<Rightarrow> 't option \<Rightarrow> 'f list \<Rightarrow> 'f list \<Rightarrow> 't list \<Rightarrow> 't list
     \<Rightarrow> int \<Rightarrow> 't list \<Rightarrow> ('t, 'f, 'r) state \<Rightarrow> 't list \<times> ('t, 'f, 'r) state" where
  "call_run_img2vid_per_step hp cfg cond_image polars azims cond_motion cond_view step noisy s =
     (let (samples, r) =
            run_img2vid_per_step hp cfg cond_image polars azims cond_motion cond_view step noisy (rng s)
      in (samples,
          s\<lparr>rng := r,
            trace := trace s @
              [Run_img2vid_per_step cond_image polars azims cond_motion cond_view step noisy]\<rparr>))"

definition call_decode_latents ::
  "('t, 'f, 'r) helpers \<Rightarrow> 'f config \<Rightarrow> 't \<Rightarrow> ('t, 'f, 'r) state \<Rightarrow> 't \<times> ('t, 'f, 'r) state" where
  "call_decode_latents hp cfg latent s =
     (let (img, r) = decode_latents hp cfg latent (rng s)
      in (img, s\<lparr>rng := r, trace := trace s @ [Decode_latents latent]\<rparr>))"

subsection \<open>Initialising the grid and saving the seed videos (lines 134--148)\<close>

definition init_matrix ::
  "('t, 'f, 'r) helpers \<Rightarrow> 't list \<Rightarrow> 't list \<Rightarrow> ('t, 'f, 'r) state
     \<Rightarrow> (error + unit) \<times> ('t, 'f, 'r) state" where
  "init_matrix hp images_t0 images_v0 s0 =
     (let s = s0\<lparr>img_matrix := replicate n_frames (replicate n_views None)\<rparr>
      in case for_loop (enumerate 0 subsampled_views)
                (\<lambda>(i, v) s. case getitem images_t0 v of
                     Inl e \<Rightarrow> (Inl e, s)
                   | Inr x \<Rightarrow> (Inr (), set_slot 0 i (unsqueeze hp x) s)) s of
           (Inl e, s) \<Rightarrow> (Inl e, s)
         | (Inr u, s) \<Rightarrow>
             for_loop [0..<n_frames]
               (\<lambda>t s. case getitem images_v0 t of
                    Inl e \<Rightarrow> (Inl e, s)
                  | Inr x \<Rightarrow> (Inr (), set_slot t 0 x s)) s)"

definition base_count_of :: "string list \<Rightarrow> nat" where
  "base_count_of files = length (glob_mp4 files) div 10"

definition video_name :: "nat \<Rightarrow> string \<Rightarrow> string" where
  "video_name base_count suffix = zfill 6 (str_nat base_count) @ suffix"

definition save_seed_videos :: "('t, 'f, 'r) state \<Rightarrow> 't outputs \<Rightarrow> nat \<times> 't outputs" where
  "save_seed_videos s out0 =
     (let base_count = base_count_of (folder out0);
          out = save_video (video_name base_count ''_t000.mp4'') (img_matrix s ! 0) out0;
          out = save_video (video_name base_count ''_v000.mp4'')
                  (map (\<lambda>t. img_matrix s ! t ! 0) [0..<n_frames]) out
      in (base_count, out))"

subsection \<open>Conditioning angles (lines 167--169 and 193--195)\<close>

definition view_indices :: "nat list" where
  "view_indices = map (\<lambda>v. v + 1) (arange 0 V 1)"

definition view_polars :: "'f list \<Rightarrow> 'f list" where
  "view_polars polars_rad = concat (replicate T (map ((!) polars_rad) (tl subsampled_views)))"

definition view_azims :: "'f float_ops \<Rightarrow> 'f list \<Rightarrow> 'f list" where
  "view_azims fo azimuths_rad =
     map (\<lambda>a. f_mod fo (f_sub fo a (azimuths_rad ! v0)) (two_pi fo))
       (concat (replicate T (map ((!) azimuths_rad) (tl subsampled_views))))"

subsection \<open>Anchor pass (lines 160--177)\<close>

definition anchor_pass ::
  "'f float_ops \<Rightarrow> ('t, 'f, 'r) helpers \<Rightarrow> 'f config \<Rightarrow> 'f list \<Rightarrow> 'f list \<Rightarrow> ('t, 'f, 'r) state
     \<Rightarrow> (error + unit) \<times> ('t, 'f, 'r) state" where
  "anchor_pass fo hp cfg polars_rad azimuths_rad s0 =
     (let t0 = 0;
          s = s0\<lparr>frame_indices := arange (T - 1) n_frames (T - 1)\<rparr>;
          cond_image = img_matrix s ! t0 ! v0
      in case cat (map (\<lambda>t. img_matrix s ! t ! v0) (frame_indices s)) of
           Inl e \<Rightarrow> (Inl e, s)
         | Inr cond_motion \<Rightarrow>
      case cat (map (\<lambda>v. img_matrix s ! t0 ! v) view_indices) of
           Inl e \<Rightarrow> (Inl e, s)
         | Inr cond_view \<Rightarrow>
      let polars = view_polars polars_rad;
          azims = view_azims fo azimuths_rad;
          (samples, s) = call_run_img2vid hp cfg cond_image polars azims cond_motion cond_view s
      in case view2 T V samples of
           Inl e \<Rightarrow> (Inl e, s)
         | Inr samples \<Rightarrow>
             for_loop (enumerate 0 (frame_indices s))
               (\<lambda>(i, t). for_loop (enumerate 0 view_indices)
                  (\<lambda>(j, v) s.
                     if img_matrix s ! t ! v = None
                     then (Inr (), set_slot t v (scale_shift hp (unsqueeze hp (samples ! i ! j))) s)
                     else (Inr (), s))) s)"

subsection \<open>Dense pass (lines 181--218)\<close>

text \<open>The body of the loop over \<open>step\<close> (lines 186--212).\<close>

definition dense_step ::
  "'f float_ops \<Rightarrow> ('t, 'f, 'r) helpers \<Rightarrow> 'f config \<Rightarrow> 'f list \<Rightarrow> 'f list \<Rightarrow> int
     \<Rightarrow> ('t, 'f, 'r) state \<Rightarrow> (error + unit) \<times> ('t, 'f, 'r) state" where
  "dense_step fo hp cfg polars_rad azimuths_rad step s0 =
     (let s = s0\<lparr>frame_indices := rev (frame_indices s0)\<rparr>;
          t0 = frame_indices s ! 0;
          cond_image = img_matrix s ! t0 ! v0
      in case cat (map (\<lambda>t. img_matrix s ! t ! v0) (frame_indices s)) of
           Inl e \<Rightarrow> (Inl e, s)
         | Inr cond_motion \<Rightarrow>
      case cat (map (\<lambda>v. img_matrix s ! t0 ! v) view_indices) of
           Inl e \<Rightarrow> (Inl e, s)
         | Inr cond_view \<Rightarrow>
      let polars = view_polars polars_rad;
          azims = view_azims fo azimuths_rad;
          noisy_latents =
            concat (map (\<lambda>t. map (\<lambda>v. latent_matrix s ! t ! v) view_indices) (frame_indices s));
          (samples, s) =
            call_run_img2vid_per_step hp cfg cond_image polars azims cond_motion cond_view step
              noisy_latents s
      in case view2 T V samples of
           Inl e \<Rightarrow> (Inl e, s)
         | Inr samples \<Rightarrow>
             for_loop (enumerate 0 (frame_indices s))
               (\<lambda>(i, t). for_loop (enumerate 0 view_indices)
                  (\<lambda>(j, v) s. (Inr (), set_latent t v (samples ! i ! j) s))) s)"

text \<open>Decoding and committing a window (lines 214--218).\<close>

definition decode_commit ::
  "('t, 'f, 'r) helpers \<Rightarrow> 'f config \<Rightarrow> ('t, 'f, 'r) state \<Rightarrow> (error + unit) \<times> ('t, 'f, 'r) state" where
  "decode_commit hp cfg s0 =
     for_loop (frame_indices s0)
       (\<lambda>t. for_loop view_indices
          (\<lambda>v s.
             if t \<noteq> 0 \<and> v \<noteq> 0
             then let (img, s) = call_decode_latents hp cfg (unsqueeze hp (latent_matrix s ! t ! v)) s
                  in (Inr (), set_slot t v (scale_shift hp img) s)
             else (Inr (), s))) s0"

text \<open>\<open>t0 + np.arange(T)\<close>\<close>

definition window :: "nat \<Rightarrow> nat list" where
  "window t0 = map (\<lambda>k. t0 + k) (arange 0 T 1)"

text \<open>The body of the loop over the windows (lines 182--218).\<close>

definition dense_window ::
  "'f float_ops \<Rightarrow> ('t, 'f, 'r) helpers \<Rightarrow> 'f config \<Rightarrow> 'f list \<Rightarrow> 'f list \<Rightarrow> nat
     \<Rightarrow> ('t, 'f, 'r) state \<Rightarrow> (error + unit) \<times> ('t, 'f, 'r) state" where
  "dense_window fo hp cfg polars_rad azimuths_rad t0 s0 =
     (let s = s0\<lparr>frame_indices := window t0\<rparr>;
          (latents, r) = randn hp n_frames n_views (rng s);
          s = s\<lparr>latent_matrix := latents, rng := r\<rparr>
      in case for_loop (range (num_steps cfg)) (dense_step fo hp cfg polars_rad azimuths_rad) s of
           (Inl e, s) \<Rightarrow> (Inl e, s)
         | (Inr u, s) \<Rightarrow> decode_commit hp cfg s)"

definition dense_pass ::
  "'f float_ops \<Rightarrow> ('t, 'f, 'r) helpers \<Rightarrow> 'f config \<Rightarrow> 'f list \<Rightarrow> 'f list \<Rightarrow> ('t, 'f, 'r) state
     \<Rightarrow> (error + unit) \<times> ('t, 'f, 'r) state" where
  "dense_pass fo hp cfg polars_rad azimuths_rad s =
     for_loop (arange 0 (n_frames - 1) (T - 1))
       (dense_window fo hp cfg polars_rad azimuths_rad) s"

subsection \<open>Output videos (lines 221--232)\<close>

definition diag_index :: "nat \<Rightarrow> nat" where
  "diag_index t = (t div (n_frames div n_views)) mod n_views"

definition save_outputs :: "nat \<Rightarrow> ('t, 'f, 'r) state \<Rightarrow> 't outputs \<Rightarrow> 't outputs" where
  "save_outputs base_count s out0 =
     (let out = foldl (\<lambda>out v. save_video
                                  (video_name base_count (''_v'' @ zfill 3 (str_nat v) @ ''.mp4''))
                                  (map (\<lambda>t. img_matrix s ! t ! v) [0..<n_frames]) out)
                  out0 view_indices;
          diag_frames = map (\<lambda>t. img_matrix s ! t ! diag_index t) [0..<n_frames]
      in save_video (video_name base_count ''_diag.mp4'') diag_frames out)"

subsection \<open>The whole run\<close>

text \<open>\<open>sample\<close>, started on the listing \<open>files\<close> of the output folder, in four stages. Each
  stage returns the raised error, or the local values the next stage needs, with the state
  and the output folder reached. Loading the SV4D model (lines 151--157) touches none of the modelled variables
  and is part of the model helpers.\<close>

text \<open>Lines 85--138: seeding, reading the video, the camera viewpoints, the SV3D views of
  frame 0, and the grid. The result is \<open>(polars_rad, azimuths_rad)\<close>.\<close>

definition sample_init ::
  "'f float_ops \<Rightarrow> ('t, 'f, 'r) helpers \<Rightarrow> 'f config \<Rightarrow> string list
     \<Rightarrow> (error + 'f list \<times> 'f list) \<times> ('t, 'f, 'r) state \<times> 't outputs" where
  "sample_init fo hp cfg files =
     (let s = initial_state hp cfg;
          out = initial_outputs files
      in case read_video hp cfg of
           Inl e \<Rightarrow> (Inl e, s, out)
         | Inr images_v0 \<Rightarrow>
      case camera_viewpoints fo cfg of
           Inl e \<Rightarrow> (Inl e, s, out)
         | Inr (polars_rad, azimuths_rad) \<Rightarrow>
      case getitem images_v0 0 of
           Inl e \<Rightarrow> (Inl e, s, out)
         | Inr image0 \<Rightarrow>
      let (images_t0, s) = call_sample_sv3d hp cfg image0 polars_rad azimuths_rad s;
          images_t0 = roll1 images_t0
      in case init_matrix hp images_t0 images_v0 s of
           (Inl e, s) \<Rightarrow> (Inl e, s, out)
         | (Inr u, s) \<Rightarrow> (Inr (polars_rad, azimuths_rad), s, out))"

text \<open>Lines 140--177: the seed videos and the anchor pass. The result adds \<open>base_count\<close>.\<close>

definition sample_anchor ::
  "'f float_ops \<Rightarrow> ('t, 'f, 'r) helpers \<Rightarrow> 'f config \<Rightarrow> string list
     \<Rightarrow> (error + 'f list \<times> 'f list \<times> nat) \<times> ('t, 'f, 'r) state \<times> 't outputs" where
  "sample_anchor fo hp cfg files =
     (case sample_init fo hp cfg files of
        (Inl e, s, out) \<Rightarrow> (Inl e, s, out)
      | (Inr (polars_rad, azimuths_rad), s, out) \<Rightarrow>
          let (base_count, out) = save_seed_videos s out
          in case anchor_pass fo hp cfg polars_rad azimuths_rad s of
               (Inl e, s) \<Rightarrow> (Inl e, s, out)
             | (Inr u, s) \<Rightarrow> (Inr (polars_rad, azimuths_rad, base_count), s, out))"

text \<open>Lines 181--218: the dense pass.\<close>

definition sample_dense ::
  "'f float_ops \<Rightarrow> ('t, 'f, 'r) helpers \<Rightarrow> 'f config \<Rightarrow> string list
     \<Rightarrow> (error + 'f list \<times> 'f list \<times> nat) \<times> ('t, 'f, 'r) state \<times> 't outputs" where
  "sample_dense fo hp cfg files =
     (case sample_anchor fo hp cfg files of
        (Inl e, s, out) \<Rightarrow> (Inl e, s, out)
      | (Inr (polars_rad, azimuths_rad, base_count), s, out) \<Rightarrow>
          case dense_pass fo hp cfg polars_rad azimuths_rad s of
            (Inl e, s) \<Rightarrow> (Inl e, s, out)
          | (Inr u, s) \<Rightarrow> (Inr (polars_rad, azimuths_rad, base_count), s, out))"

text \<open>Lines 221--232: the output videos; this is the whole run.\<close>

definition sample ::
  "'f float_ops \<Rightarrow> ('t, 'f, 'r) helpers \<Rightarrow> 'f config \<Rightarrow> string list
     \<Rightarrow> (error + unit) \<times> ('t, 'f, 'r) state \<times> 't outputs" where
  "sample fo hp cfg files =
     (case sample_dense fo hp cfg files of
        (Inl e, s, out) \<Rightarrow> (Inl e, s, out)
      | (Inr (polars_rad, azimuths_rad, base_count), s, out) \<Rightarrow>
          (Inr (), s, save_outputs base_count s out))"

subsection \<open>Successive runs into one output folder\<close>


section \<open>Properties\<close>

subsection \<open>Notions used in the statements\<close>

text \<open>The grid has \<open>n_frames\<close> rows of \<open>n_views\<close> slots.\<close>

definition dims_ok :: "('t, 'f, 'r) state \<Rightarrow> bool" where
  "dims_ok s \<longleftrightarrow>
     length (img_matrix s) = n_frames \<and> list_all (\<lambda>row. length row = n_views) (img_matrix s)"

text \<open>The grid positions assigned by a sequence of events, in order.\<close>

fun fill_pos :: "('t, 'f) event list \<Rightarrow> (nat \<times> nat) list" where
  "fill_pos [] = []"
| "fill_pos (Fill t v x # evs) = (t, v) # fill_pos evs"
| "fill_pos (e # evs) = fill_pos evs"

text \<open>\<open>wrote Q W s s'\<close>: going from \<open>s\<close> to \<open>s'\<close> the program assigned exactly the slots
  \<open>W\<close>, in that order; each of them holds afterwards an image \<open>x\<close> with \<open>Q t v x\<close>, and
  every other slot is unchanged.\<close>

definition wrote ::
  "(nat \<Rightarrow> nat \<Rightarrow> 't \<Rightarrow> bool) \<Rightarrow> (nat \<times> nat) list \<Rightarrow> ('t, 'f, 'r) state \<Rightarrow> ('t, 'f, 'r) state
     \<Rightarrow> bool" where
  "wrote Q W s s' \<longleftrightarrow>
     dims_ok s' \<and>
     (\<exists>evs. trace s' = trace s @ evs \<and> fill_pos evs = W) \<and>
     (\<forall>t<n_frames. \<forall>v<n_views.
        if (t, v) \<in> set W then (\<exists>x. img_matrix s' ! t ! v = Some x \<and> Q t v x)
        else img_matrix s' ! t ! v = img_matrix s ! t ! v)"

text \<open>The helpers return tensors of the shapes the script reshapes them to: \<open>sample_sv3d\<close>
  gives \<open>n_views_sv3d\<close> images, the two SV4D samplers \<open>T * V\<close> tensors, \<open>torch.randn\<close> the
  requested \<open>n_frames \<times> n_views\<close> blocks.\<close>

definition helpers_ok :: "('t, 'f, 'r) helpers \<Rightarrow> bool" where
  "helpers_ok hp \<longleftrightarrow>
     (\<forall>cfg x p a r. length (fst (sample_sv3d hp cfg x p a r)) = n_views_sv3d) \<and>
     (\<forall>cfg x p a m w r. length (fst (run_img2vid hp cfg x p a m w r)) = T * V) \<and>
     (\<forall>cfg x p a m w k z r. length (fst (run_img2vid_per_step hp cfg x p a m w k z r)) = T * V) \<and>
     (\<forall>r. length (fst (randn hp n_frames n_views r)) = n_frames \<and>
          list_all (\<lambda>row. length row = n_views) (fst (randn hp n_frames n_views r)))"

text \<open>The input video has \<open>n_frames\<close> frames and the angle arguments are a number or lists of
  \<open>n_views_sv3d\<close> values.\<close>

definition valid_input :: "('t, 'f, 'r) helpers \<Rightarrow> 'f config \<Rightarrow> bool" where
  "valid_input hp cfg \<longleftrightarrow>
     (case read_video hp cfg of Inl e \<Rightarrow> False | Inr frames \<Rightarrow> length frames = n_frames) \<and>
     (case elevations_deg cfg of
        ElevNone \<Rightarrow> False
      | ElevScalar e \<Rightarrow> True
      | ElevList es \<Rightarrow> length es = n_views_sv3d) \<and>
     (case azimuths_deg cfg of None \<Rightarrow> True | Some az \<Rightarrow> length az = n_views_sv3d)"

subsection \<open>A concrete instance\<close>

text \<open>Tensors and generator states are numbers, angles are whole degrees.\<close>

definition demo_float_ops :: "int float_ops" where
  "demo_float_ops =
     \<lparr>f_lit = (\<lambda>n. n), f_sub = (\<lambda>a b. a - b), f_mod = (\<lambda>a b. a mod b), deg2rad = (\<lambda>a. a),
      two_pi = 360, linspace_pt = (\<lambda>a b n k. a + (b - a) * int k div (int n - 1))\<rparr>"

definition demo_helpers :: "(nat, int, nat) helpers" where
  "demo_helpers =
     \<lparr>manual_seed = (\<lambda>n. nat n),
      read_video = (\<lambda>cfg. Inr [0..<21]),
      sample_sv3d = (\<lambda>cfg img p a r. (map (\<lambda>k. 100 + k) [0..<21], r + 1)),
      run_img2vid = (\<lambda>cfg img p a cm cv r. (map (\<lambda>k. 200 + k) [0..<40], r + 1)),
      run_img2vid_per_step =
        (\<lambda>cfg img p a cm cv step noisy r. (map (\<lambda>k. 300 + k) [0..<40], r + 1)),
      decode_latents = (\<lambda>cfg x r. (x + 1000, r)),
      randn = (\<lambda>m n r. (replicate m (replicate n 1), r + 1)),
      unsqueeze = (\<lambda>x. x),
      scale_shift = (\<lambda>x. 2 * x)\<rparr>"

definition demo_config :: "int config" where
  "demo_config =
     \<lparr>input_path = ''assets/test_video.mp4'', output_folder = ''outputs/sv4d'', num_steps = 20,
      sv3d_version = ''sv3d_u'', fps_id = 6, motion_bucket_id = 127, cond_aug = 0, seed = 23,
      decoding_t = 14, device = ''cuda'', elevations_deg = ElevScalar 10, azimuths_deg = None,
      image_frame_ratio = None, verbose = False, remove_bg = False\<rparr>"

text \<open>A state at the start of the first dense window: the grid as the anchor pass leaves it,
  with frame 0, view 0 and the anchor frames filled.\<close>

definition demo_state :: "(nat, int, nat) state" where
  "demo_state =
     \<lparr>rng = 0, trace = [],
      img_matrix =
        map (\<lambda>t. map (\<lambda>v. if t mod 4 = 0 \<or> v = 0 then Some 7 else None) [0..<9]) [0..<21],
      latent_matrix = replicate 21 (replicate 9 1),
      frame_indices = [0, 1, 2, 3, 4]\<rparr>"

text \<open>The slots the decode loop of lines 214--218 assigns for the frame order \<open>fi\<close>, and the
  images it assigns: \<open>decode_latents(model, latent_matrix[t, v][None], T) * 2 - 1\<close>.\<close>

definition decode_slots :: "nat list \<Rightarrow> (nat \<times> nat) list" where
  "decode_slots fi = [(t, v). t \<leftarrow> fi, v \<leftarrow> view_indices, t \<noteq> 0 \<and> v \<noteq> 0]"

definition decoded ::
  "('t, 'f, 'r) helpers \<Rightarrow> 'f config \<Rightarrow> 't list list \<Rightarrow> nat \<Rightarrow> nat \<Rightarrow> 't \<Rightarrow> bool" where
  "decoded hp cfg latents t v x \<longleftrightarrow>
     (\<exists>r. x = scale_shift hp (fst (decode_latents hp cfg (unsqueeze hp (latents ! t ! v)) r)))"


text \<open>What every dense step relies on: the input view (column 0) is complete and so are the
  rows of frame 0 and of the anchor frames, the multiples of \<open>T - 1\<close>.\<close>

definition anchored :: "('t, 'f, 'r) state \<Rightarrow> bool" where
  "anchored s \<longleftrightarrow>
     dims_ok s \<and> (\<forall>t<n_frames. img_matrix s ! t ! v0 \<noteq> None) \<and>
     (\<forall>t<n_frames. \<forall>v<n_views. t mod (T - 1) = 0 \<longrightarrow> img_matrix s ! t ! v \<noteq> None)"

text \<open>A frame order that starts and ends on such a row.\<close>

definition good_order :: "nat list \<Rightarrow> bool" where
  "good_order fi \<longleftrightarrow>
     fi \<noteq> [] \<and> set fi \<subseteq> {..<n_frames} \<and> hd fi mod (T - 1) = 0 \<and> last fi mod (T - 1) = 0"




text \<open>The frame order a window is left with after its \<open>num_steps\<close> steps, and the predicate
  that puts no condition on an assigned image.\<close>

definition dense_order :: "'f config \<Rightarrow> nat \<Rightarrow> nat list" where
  "dense_order cfg t0 = (if even (length (range (num_steps cfg))) then window t0 else rev (window t0))"

definition any_image :: "nat \<Rightarrow> nat \<Rightarrow> 't \<Rightarrow> bool" where
  "any_image t v x \<longleftrightarrow> True"

text \<open>\<open>guarded s s'\<close>: going from \<open>s\<close> to \<open>s'\<close> the program assigned only slots that were
  empty in \<open>s\<close>.\<close>

definition guarded :: "('t, 'f, 'r) state \<Rightarrow> ('t, 'f, 'r) state \<Rightarrow> bool" where
  "guarded s s' \<longleftrightarrow>
     (\<exists>W. wrote any_image W s s' \<and>
        (\<forall>(t, v)\<in>set W. t < n_frames \<and> v < n_views \<and> img_matrix s ! t ! v = None))"

text \<open>The image assigned to a slot is frame \<open>t\<close> of the input video.\<close>

definition input_frame :: "'t list \<Rightarrow> nat \<Rightarrow> nat \<Rightarrow> 't \<Rightarrow> bool" where
  "input_frame images_v0 t v x \<longleftrightarrow> x = images_v0 ! t"

subsection \<open>The names a completed run writes\<close>




section \<open>Proofs\<close>

subsection \<open>Loops and grid assignments\<close>

lemma fill_pos_append: "fill_pos (xs @ ys) = fill_pos xs @ fill_pos ys"
  by (induction xs rule: fill_pos.induct) auto

lemma for_loop_append:
  "for_loop (xs @ ys) body s =
     (case for_loop xs body s of (Inl e, s') \<Rightarrow> (Inl e, s') | (Inr u, s') \<Rightarrow> for_loop ys body s')"
  by (induction xs arbitrary: s) (auto split: prod.splits sum.splits)

lemma for_loop_inv:
  assumes "for_loop xs body s = (r, s')" and "I s"
    and "\<And>x s r s'. x \<in> set xs \<Longrightarrow> I s \<Longrightarrow> body x s = (r, s') \<Longrightarrow> I s'"
  shows "I s'"
  using assms
proof (induction xs arbitrary: s)
  case Nil
  then show ?case by simp
next
  case (Cons x xs)
  obtain r1 s1 where b: "body x s = (r1, s1)" by (cases "body x s")
  have I1: "I s1" using Cons.prems(3)[of x s r1 s1] Cons.prems(2) b by simp
  have step: "\<And>y s r s'. y \<in> set xs \<Longrightarrow> I s \<Longrightarrow> body y s = (r, s') \<Longrightarrow> I s'"
    using Cons.prems(3) by (meson list.set_intros(2))
  show ?case
  proof (cases r1)
    case (Inl e)
    with b Cons.prems(1) have "s' = s1" by simp
    with I1 show ?thesis by simp
  next
    case (Inr u)
    with b Cons.prems(1) have "for_loop xs body s1 = (r, s')" by simp
    from Cons.IH[OF this I1 step] show ?thesis by simp
  qed
qed

lemma for_loop_total:
  assumes "I [] s"
    and "\<And>pre x post s. xs = pre @ x # post \<Longrightarrow> I pre s
           \<Longrightarrow> \<exists>s'. body x s = (Inr (), s') \<and> I (pre @ [x]) s'"
  shows "\<exists>s'. for_loop xs body s = (Inr (), s') \<and> I xs s'"
proof -
  have "\<And>pre s. I pre s \<Longrightarrow> xs = pre @ ys
          \<Longrightarrow> \<exists>s'. for_loop ys body s = (Inr (), s') \<and> I (pre @ ys) s'" for ys
  proof (induction ys)
    case Nil
    then show ?case by simp
  next
    case (Cons y ys)
    from assms(2)[OF Cons.prems(2) Cons.prems(1)]
    obtain s1 where b: "body y s = (Inr (), s1)" and I1: "I (pre @ [y]) s1" by blast
    from Cons.prems(2) have "xs = (pre @ [y]) @ ys" by simp
    from Cons.IH[OF I1 this] b show ?case by simp
  qed
  from this[of "[]" s xs] assms(1) show ?thesis by simp
qed

lemma dims_ok_set_slot: "dims_ok s \<Longrightarrow> dims_ok (set_slot t v x s)"
proof (cases "t < length (img_matrix s)")
  case True
  assume d: "dims_ok s"
  then have "length (img_matrix s ! t) = n_views"
    using True by (simp add: dims_ok_def list_all_length)
  with d True show ?thesis
    by (auto simp: dims_ok_def set_slot_def list_all_length nth_list_update)
next
  case False
  assume "dims_ok s"
  moreover from False have "(img_matrix s)[t := (img_matrix s ! t)[v := Some x]] = img_matrix s"
    by (intro list_update_beyond) simp
  ultimately show ?thesis by (simp add: dims_ok_def set_slot_def)
qed

lemma row_length: "dims_ok s \<Longrightarrow> t < n_frames \<Longrightarrow> length (img_matrix s ! t) = n_views"
  by (simp add: dims_ok_def list_all_length)

lemma slot_set_slot:
  "dims_ok s \<Longrightarrow> t < n_frames \<Longrightarrow> v < n_views \<Longrightarrow>
   img_matrix (set_slot t v x s) ! t' ! v' =
     (if t' = t \<and> v' = v then Some x else img_matrix s ! t' ! v')"
  using row_length[of s t]
  by (auto simp: dims_ok_def set_slot_def nth_list_update)

lemma wrote_refl: "dims_ok s \<Longrightarrow> wrote Q [] s s"
  by (simp add: wrote_def)

lemma wrote_dims: "wrote Q W s s' \<Longrightarrow> dims_ok s'"
  by (simp add: wrote_def)

lemma wrote_mono:
  assumes "wrote Q W s s'" and "\<And>t v x. (t, v) \<in> set W \<Longrightarrow> Q t v x \<Longrightarrow> Q' t v x"
  shows "wrote Q' W s s'"
  using assms unfolding wrote_def by (auto split: if_splits) metis

lemma wrote_slot_in:
  "wrote Q W s s' \<Longrightarrow> t < n_frames \<Longrightarrow> v < n_views \<Longrightarrow> (t, v) \<in> set W
     \<Longrightarrow> \<exists>x. img_matrix s' ! t ! v = Some x \<and> Q t v x"
  unfolding wrote_def by (elim conjE allE[of _ t] allE[of _ v]) simp

lemma wrote_slot_out:
  "wrote Q W s s' \<Longrightarrow> t < n_frames \<Longrightarrow> v < n_views \<Longrightarrow> (t, v) \<notin> set W
     \<Longrightarrow> img_matrix s' ! t ! v = img_matrix s ! t ! v"
  unfolding wrote_def by (elim conjE allE[of _ t] allE[of _ v]) simp

lemma wrote_filled:
  assumes "wrote Q W s s'" "t < n_frames" "v < n_views" "img_matrix s ! t ! v \<noteq> None"
  shows "img_matrix s' ! t ! v \<noteq> None"
proof (cases "(t, v) \<in> set W")
  case True
  from wrote_slot_in[OF assms(1-3) True] show ?thesis by auto
next
  case False
  from wrote_slot_out[OF assms(1-3) False] assms(4) show ?thesis by simp
qed

lemma wrote_trans2:
  assumes a: "wrote Q1 W1 s s'" and b: "wrote Q2 W2 s' s''"
  shows "wrote (\<lambda>t v x. if (t, v) \<in> set W2 then Q2 t v x else Q1 t v x) (W1 @ W2) s s''"
proof -
  from a obtain e1 where e1: "trace s' = trace s @ e1" "fill_pos e1 = W1"
    by (auto simp: wrote_def)
  from b obtain e2 where e2: "trace s'' = trace s' @ e2" "fill_pos e2 = W2"
    by (auto simp: wrote_def)
  have tr: "\<exists>evs. trace s'' = trace s @ evs \<and> fill_pos evs = W1 @ W2"
    using e1 e2 by (intro exI[of _ "e1 @ e2"]) (simp add: fill_pos_append)
  have sl: "if (t, v) \<in> set (W1 @ W2)
            then (\<exists>x. img_matrix s'' ! t ! v = Some x \<and>
                    (if (t, v) \<in> set W2 then Q2 t v x else Q1 t v x))
            else img_matrix s'' ! t ! v = img_matrix s ! t ! v"
    if "t < n_frames" "v < n_views" for t v
  proof (cases "(t, v) \<in> set W2")
    case True
    from wrote_slot_in[OF b that True] True show ?thesis by simp
  next
    case False
    note out2 = wrote_slot_out[OF b that False]
    show ?thesis
    proof (cases "(t, v) \<in> set W1")
      case True
      from wrote_slot_in[OF a that True] out2 False True show ?thesis by simp
    next
      case F1: False
      from wrote_slot_out[OF a that F1] out2 False F1 show ?thesis by simp
    qed
  qed
  have d: "dims_ok s''" using b by (rule wrote_dims)
  show ?thesis unfolding wrote_def
  proof (intro conjI allI impI)
    show "dims_ok s''" by (rule d)
    show "\<exists>evs. trace s'' = trace s @ evs \<and> fill_pos evs = W1 @ W2" by (rule tr)
  next
    fix t v assume "t < n_frames" "v < n_views"
    then show "if (t, v) \<in> set (W1 @ W2)
            then (\<exists>x. img_matrix s'' ! t ! v = Some x \<and>
                    (if (t, v) \<in> set W2 then Q2 t v x else Q1 t v x))
            else img_matrix s'' ! t ! v = img_matrix s ! t ! v" by (rule sl)
  qed
qed

lemma wrote_trans:
  assumes "wrote Q W1 s s'" and "wrote Q W2 s' s''"
  shows "wrote Q (W1 @ W2) s s''"
  by (rule wrote_mono[OF wrote_trans2[OF assms]]) (simp split: if_splits)

lemma wrote_set_slot:
  assumes "dims_ok s" "t < n_frames" "v < n_views" "Q t v x"
  shows "wrote Q [(t, v)] s (set_slot t v x s)"
proof -
  have "trace (set_slot t v x s) = trace s @ [Fill t v x]" by (simp add: set_slot_def)
  then have "\<exists>evs. trace (set_slot t v x s) = trace s @ evs \<and> fill_pos evs = [(t, v)]"
    by simp
  with assms dims_ok_set_slot[OF assms(1), of t v x] show ?thesis
    unfolding wrote_def by (simp add: slot_set_slot)
qed

text \<open>A step that assigns no slot: the grid is the same and the new events are model calls.\<close>

lemma wrote_nofill:
  assumes "dims_ok s" "img_matrix s' = img_matrix s" "trace s' = trace s @ evs" "fill_pos evs = []"
  shows "wrote Q [] s s'"
  using assms unfolding wrote_def dims_ok_def by simp

lemma for_loop_wrote:
  assumes P: "P s"
    and dims: "\<And>s. P s \<Longrightarrow> dims_ok s"
    and body: "\<And>x s. x \<in> set xs \<Longrightarrow> P s
                 \<Longrightarrow> \<exists>s'. body x s = (Inr (), s') \<and> wrote Q (W x) s s' \<and> P s'"
  shows "\<exists>s'. for_loop xs body s = (Inr (), s') \<and> wrote Q (concat (map W xs)) s s' \<and> P s'"
proof (rule for_loop_total[where I = "\<lambda>pre s'. wrote Q (concat (map W pre)) s s' \<and> P s'"])
  show "wrote Q (concat (map W [])) s s \<and> P s" using dims[OF P] P by (simp add: wrote_refl)
next
  fix pre x post s1
  assume xs: "xs = pre @ x # post" and w: "wrote Q (concat (map W pre)) s s1 \<and> P s1"
  have "x \<in> set xs" using xs by simp
  with w obtain s2 where b: "body x s1 = (Inr (), s2)" and w2: "wrote Q (W x) s1 s2" "P s2"
    using body by blast
  from wrote_trans[OF conjunct1[OF w] w2(1)] b w2(2)
  show "\<exists>s'. body x s1 = (Inr (), s') \<and> wrote Q (concat (map W (pre @ [x]))) s s' \<and> P s'"
    by simp
qed

subsection \<open>Index sets\<close>


text \<open>C5, as stated: the view of frame \<open>t\<close> in the diagonal video would be
  \<open>\<lfloor>t / (21 / 9)\<rfloor> mod 9\<close>. At \<open>t = 6\<close> that is 2, and the script takes view 3.\<close>

theorem diag_index_not_true_division:
  "diag_index 6 \<noteq> nat \<lfloor>(6::rat) / (21 / 9)\<rfloor> mod 9"
proof -
  have "\<lfloor>(6::rat) / (21 / 9)\<rfloor> = 2" by (simp add: floor_eq_iff)
  then show ?thesis by (simp add: diag_index_def model_config)
qed

text \<open>C5, amended: the script divides the frame counts as integers first,
  \<open>n_frames // n_views = 2\<close>, so the view of frame \<open>t\<close> in the diagonal video is
  \<open>(t div 2) mod 9\<close>; over the 21 frames the views are
  0, 0, 1, 1, ..., 8, 8, 0, 0, 1.\<close>

theorem diag_index_floor_division:
  "diag_index t = (t div (21 div 9)) mod 9 \<and> diag_index t = (t div 2) mod 9 \<and>
   map diag_index [0..<n_frames] =
     [0, 0, 1, 1, 2, 2, 3, 3, 4, 4, 5, 5, 6, 6, 7, 7, 8, 8, 0, 0, 1]"
  by (simp add: diag_index_def model_config upt_rec)

subsection \<open>Validation of the angle lists\<close>





subsection \<open>Decoding a window\<close>

lemma view_indices_eq: "view_indices = [1, 2, 3, 4, 5, 6, 7, 8]"
  by (simp add: view_indices_def arange.simps V_def)

lemma view_indices_range: "v \<in> set view_indices \<Longrightarrow> v < n_views \<and> v \<noteq> 0"
  by (auto simp: view_indices_eq n_views_def V_def)

lemma call_decode_latents_fields:
  "img_matrix (snd (call_decode_latents hp cfg z s)) = img_matrix s"
  "trace (snd (call_decode_latents hp cfg z s)) = trace s @ [Decode_latents z]"
  "latent_matrix (snd (call_decode_latents hp cfg z s)) = latent_matrix s"
  "frame_indices (snd (call_decode_latents hp cfg z s)) = frame_indices s"
  by (auto simp: call_decode_latents_def split: prod.splits)

lemma call_decode_latents_value:
  "\<exists>r. fst (call_decode_latents hp cfg z s) = fst (decode_latents hp cfg z r)"
  by (rule exI[of _ "rng s"]) (simp add: call_decode_latents_def split: prod.splits)

lemma set_slot_fields:
  "latent_matrix (set_slot t v x s) = latent_matrix s"
  "frame_indices (set_slot t v x s) = frame_indices s"
  "rng (set_slot t v x s) = rng s"
  by (simp_all add: set_slot_def)

lemma decode_slot_step:
  assumes d: "dims_ok s" and t: "t < n_frames" and v: "v < n_views"
    and L: "latent_matrix s = L"
  shows "\<exists>s'. (if t \<noteq> 0 \<and> v \<noteq> 0
               then let (img, s) = call_decode_latents hp cfg (unsqueeze hp (latent_matrix s ! t ! v)) s
                    in (Inr (), set_slot t v (scale_shift hp img) s)
               else (Inr (), s)) = (Inr (), s') \<and>
              wrote (decoded hp cfg L) (if t \<noteq> 0 \<and> v \<noteq> 0 then [(t, v)] else []) s s' \<and>
              dims_ok s' \<and> latent_matrix s' = L \<and> frame_indices s' = frame_indices s"
proof (cases "t \<noteq> 0 \<and> v \<noteq> 0")
  case False
  with d L show ?thesis by (auto simp: wrote_refl)
next
  case True
  define z where "z = unsqueeze hp (latent_matrix s ! t ! v)"
  define s1 where "s1 = snd (call_decode_latents hp cfg z s)"
  define img where "img = fst (call_decode_latents hp cfg z s)"
  define s2 where "s2 = set_slot t v (scale_shift hp img) s1"
  have d1: "dims_ok s1"
    using d by (simp add: dims_ok_def s1_def call_decode_latents_fields)
  have w1: "wrote (decoded hp cfg L) [] s s1"
    by (rule wrote_nofill[OF d, where evs = "[Decode_latents z]"])
      (simp_all add: s1_def call_decode_latents_fields)
  have q: "decoded hp cfg L t v (scale_shift hp img)"
    using call_decode_latents_value[of hp cfg z s] L
    by (auto simp: decoded_def img_def z_def)
  have w2: "wrote (decoded hp cfg L) [(t, v)] s1 s2"
    unfolding s2_def by (rule wrote_set_slot[where Q = "decoded hp cfg L", OF d1 t v q])
  have w: "wrote (decoded hp cfg L) [(t, v)] s s2"
    using wrote_trans[OF w1 w2] by simp
  have eq: "(let (img, s) = call_decode_latents hp cfg (unsqueeze hp (latent_matrix s ! t ! v)) s
            in (Inr (), set_slot t v (scale_shift hp img) s)) = (Inr (), s2)"
    by (simp add: s2_def s1_def img_def z_def split_def Let_def)
  have "latent_matrix s2 = L" "frame_indices s2 = frame_indices s"
    using L by (simp_all add: s2_def s1_def set_slot_fields call_decode_latents_fields)
  with eq w wrote_dims[OF w] show ?thesis unfolding if_P[OF True] by blast
qed

lemma decode_commit_wrote:
  assumes d: "dims_ok s" and fi: "set (frame_indices s) \<subseteq> {..<n_frames}"
  shows "\<exists>s'. decode_commit hp cfg s = (Inr (), s') \<and>
              wrote (decoded hp cfg (latent_matrix s)) (decode_slots (frame_indices s)) s s' \<and>
              latent_matrix s' = latent_matrix s \<and> frame_indices s' = frame_indices s"
proof -
  define L where "L = latent_matrix s"
  define FI where "FI = frame_indices s"
  define P where "P = (\<lambda>s'::('a, 'b, 'c) state. dims_ok s' \<and> latent_matrix s' = L \<and> frame_indices s' = FI)"
  have inner: "\<exists>s'. for_loop view_indices
          (\<lambda>v s. if t \<noteq> 0 \<and> v \<noteq> 0
             then let (img, s) = call_decode_latents hp cfg (unsqueeze hp (latent_matrix s ! t ! v)) s
                  in (Inr (), set_slot t v (scale_shift hp img) s)
             else (Inr (), s)) s1 = (Inr (), s') \<and>
          wrote (decoded hp cfg L)
            (concat (map (\<lambda>v. if t \<noteq> 0 \<and> v \<noteq> 0 then [(t, v)] else []) view_indices)) s1 s' \<and> P s'"
    if "t \<in> set FI" "P s1" for t s1
  proof (rule for_loop_wrote[where P = P])
    show "P s1" by fact
    show "\<And>s. P s \<Longrightarrow> dims_ok s" by (simp add: P_def)
  next
    fix v s2 assume v: "v \<in> set view_indices" and p: "P s2"
    have t: "t < n_frames" using that(1) fi by (auto simp: FI_def)
    from decode_slot_step[of s2 t v L hp cfg] p view_indices_range[OF v] t
    show "\<exists>s'. (if t \<noteq> 0 \<and> v \<noteq> 0
               then let (img, s) = call_decode_latents hp cfg (unsqueeze hp (latent_matrix s2 ! t ! v)) s2
                    in (Inr (), set_slot t v (scale_shift hp img) s)
               else (Inr (), s2)) = (Inr (), s') \<and>
              wrote (decoded hp cfg L) (if t \<noteq> 0 \<and> v \<noteq> 0 then [(t, v)] else []) s2 s' \<and> P s'"
      by (auto simp: P_def)
  qed
  have "\<exists>s'. for_loop FI
       (\<lambda>t. for_loop view_indices
          (\<lambda>v s. if t \<noteq> 0 \<and> v \<noteq> 0
             then let (img, s) = call_decode_latents hp cfg (unsqueeze hp (latent_matrix s ! t ! v)) s
                  in (Inr (), set_slot t v (scale_shift hp img) s)
             else (Inr (), s))) s = (Inr (), s') \<and>
       wrote (decoded hp cfg L)
         (concat (map (\<lambda>t. concat (map (\<lambda>v. if t \<noteq> 0 \<and> v \<noteq> 0 then [(t, v)] else []) view_indices)) FI))
         s s' \<and> P s'"
  proof (rule for_loop_wrote[where P = P])
    show "P s" using d by (simp add: P_def L_def FI_def)
    show "\<And>s. P s \<Longrightarrow> dims_ok s" by (simp add: P_def)
  qed (rule inner)
  then show ?thesis
    unfolding decode_commit_def decode_slots_def P_def L_def FI_def by blast
qed

subsection \<open>The denoising steps of a window\<close>

lemma cat_filled: "None \<notin> set xs \<Longrightarrow> \<exists>ys. cat xs = Inr ys"
  by (simp add: cat_def)

lemma for_loop_latent:
  assumes "\<And>x s. x \<in> set xs \<Longrightarrow> \<exists>lm. body x s = (Inr (), s\<lparr>latent_matrix := lm\<rparr>)"
  shows "\<exists>lm. for_loop xs body s = (Inr (), s\<lparr>latent_matrix := lm\<rparr>)"
  using assms
proof (induction xs arbitrary: s)
  case Nil
  have "s = s\<lparr>latent_matrix := latent_matrix s\<rparr>" by simp
  then show ?case by (metis for_loop.simps(1))
next
  case (Cons x xs)
  from Cons.prems[of x s] obtain lm1 where b: "body x s = (Inr (), s\<lparr>latent_matrix := lm1\<rparr>)"
    by auto
  have "\<exists>lm. for_loop xs body (s\<lparr>latent_matrix := lm1\<rparr>)
          = (Inr (), s\<lparr>latent_matrix := lm1\<rparr>\<lparr>latent_matrix := lm\<rparr>)"
    by (rule Cons.IH) (use Cons.prems in auto)
  with b show ?case by auto
qed

lemma latent_writes:
  fixes f :: "nat \<Rightarrow> nat \<Rightarrow> 'a" and s :: "('a, 'b, 'c) state"
    and xs ys :: "(nat \<times> nat) list"
  shows "\<exists>lm. for_loop xs (\<lambda>(i, t). for_loop ys (\<lambda>(j, v) s. (Inr (), set_latent t v (f i j) s))) s
         = (Inr (), s\<lparr>latent_matrix := lm\<rparr>)"
proof (rule for_loop_latent)
  fix x :: "nat \<times> nat" and s1 :: "('a, 'b, 'c) state"
  obtain i t where x: "x = (i, t)" by (cases x)
  have "\<exists>lm. for_loop ys (\<lambda>(j, v) s. (Inr (), set_latent t v (f i j) s)) s1
          = (Inr (), s1\<lparr>latent_matrix := lm\<rparr>)"
  proof (rule for_loop_latent)
    fix y :: "nat \<times> nat" and s2 :: "('a, 'b, 'c) state"
    show "\<exists>lm. (case y of (j, v) \<Rightarrow> \<lambda>s. (Inr (), set_latent t v (f i j) s)) s2
            = (Inr (), s2\<lparr>latent_matrix := lm\<rparr>)"
      by (cases y) (auto simp: set_latent_def)
  qed
  with x show "\<exists>lm. (case x of (i, t) \<Rightarrow> for_loop ys (\<lambda>(j, v) s. (Inr (), set_latent t v (f i j) s))) s1
            = (Inr (), s1\<lparr>latent_matrix := lm\<rparr>)" by simp
qed

lemma good_order_rev: "good_order fi \<Longrightarrow> good_order (rev fi)"
  by (simp add: good_order_def hd_rev last_rev)

lemma anchored_cong: "anchored s \<Longrightarrow> img_matrix s' = img_matrix s \<Longrightarrow> anchored s'"
  by (simp add: anchored_def dims_ok_def)

lemma call_run_img2vid_per_step_fields:
  "img_matrix (snd (call_run_img2vid_per_step hp cfg x p a m w k z s)) = img_matrix s"
  "trace (snd (call_run_img2vid_per_step hp cfg x p a m w k z s))
     = trace s @ [Run_img2vid_per_step x p a m w k z]"
  "latent_matrix (snd (call_run_img2vid_per_step hp cfg x p a m w k z s)) = latent_matrix s"
  "frame_indices (snd (call_run_img2vid_per_step hp cfg x p a m w k z s)) = frame_indices s"
  by (auto simp: call_run_img2vid_per_step_def split: prod.splits)

lemma call_run_img2vid_per_step_length:
  assumes "helpers_ok hp"
  shows "length (fst (call_run_img2vid_per_step hp cfg x p a m w k z s)) = T * V"
proof -
  have "fst (call_run_img2vid_per_step hp cfg x p a m w k z s)
          = fst (run_img2vid_per_step hp cfg x p a m w k z (rng s))"
    by (simp add: call_run_img2vid_per_step_def split_def Let_def)
  with assms show ?thesis by (simp add: helpers_ok_def)
qed

lemma view2_ok: "length xs = a * b \<Longrightarrow> \<exists>ys. view2 a b xs = Inr ys"
  by (simp add: view2_def)

lemma dense_step_unfold:
  assumes "cat (map (\<lambda>t. img_matrix s ! t ! v0) (rev (frame_indices s))) = Inr cm"
    and "cat (map (\<lambda>v. img_matrix s ! (rev (frame_indices s) ! 0) ! v) view_indices) = Inr cv"
    and "call = call_run_img2vid_per_step hp cfg (img_matrix s ! (rev (frame_indices s) ! 0) ! v0)
      (view_polars p) (view_azims fo a) cm cv step
      (concat (map (\<lambda>t. map (\<lambda>v. latent_matrix s ! t ! v) view_indices) (rev (frame_indices s))))
      (s\<lparr>frame_indices := rev (frame_indices s)\<rparr>)"
    and "view2 T V (fst call) = Inr sm"
  shows "dense_step fo hp cfg p a step s =
     for_loop (enumerate 0 (frame_indices (snd call)))
       (\<lambda>(i, t). for_loop (enumerate 0 view_indices)
          (\<lambda>(j, v) s. (Inr (), set_latent t v (sm ! i ! j) s))) (snd call)"
  using assms(4) unfolding assms(3)
  by (simp add: dense_step_def Let_def split_def assms(1,2))

lemma anchored_col:
  assumes "anchored s" "t < n_frames"
  shows "img_matrix s ! t ! v0 \<noteq> None"
proof -
  from assms(1) have "\<forall>t<n_frames. img_matrix s ! t ! v0 \<noteq> None"
    unfolding anchored_def by (rule conjunct2[THEN conjunct1])
  from this[rule_format, OF assms(2)] show ?thesis .
qed

lemma anchored_row:
  assumes "anchored s" "t < n_frames" "v < n_views" "t mod (T - 1) = 0"
  shows "img_matrix s ! t ! v \<noteq> None"
proof -
  from assms(1)
  have "\<forall>t<n_frames. \<forall>v<n_views. t mod (T - 1) = 0 \<longrightarrow> img_matrix s ! t ! v \<noteq> None"
    unfolding anchored_def by (rule conjunct2[THEN conjunct2])
  from this[rule_format, OF assms(2) assms(3) assms(4)] show ?thesis .
qed

lemma dense_step_ok:
  assumes hp: "helpers_ok hp" and an: "anchored s" and go: "good_order (frame_indices s)"
  shows "\<exists>s'. dense_step fo hp cfg p a step s = (Inr (), s') \<and>
           img_matrix s' = img_matrix s \<and>
           (\<exists>evs. trace s' = trace s @ evs \<and> fill_pos evs = []) \<and>
           frame_indices s' = rev (frame_indices s)"
proof -
  define fi where "fi = rev (frame_indices s)"
  have go': "good_order fi" unfolding fi_def by (rule good_order_rev[OF go])
  define t0 where "t0 = fi ! 0"
  have t0_hd: "t0 = hd fi" using go' by (simp add: good_order_def t0_def hd_conv_nth)
  have hd_in: "hd fi \<in> set fi" and sub: "set fi \<subseteq> {..<n_frames}"
    and hd_mod: "hd fi mod (T - 1) = 0"
    using go' by (simp_all add: good_order_def)
  from hd_in sub have "hd fi < n_frames" by (simp add: subset_iff)
  with hd_mod t0_hd have t0: "t0 < n_frames" "t0 mod (T - 1) = 0"
    by simp_all
  have "\<And>t. t \<in> set fi \<Longrightarrow> img_matrix s ! t ! v0 \<noteq> None"
    using anchored_col[OF an] sub by (simp add: subset_iff)
  then have "None \<notin> set (map (\<lambda>t. img_matrix s ! t ! v0) fi)"
    by (metis (mono_tags, lifting) imageE list.set_map)
  from cat_filled[OF this] obtain cm where cm: "cat (map (\<lambda>t. img_matrix s ! t ! v0) fi) = Inr cm" ..
  have "\<And>v. v \<in> set view_indices \<Longrightarrow> img_matrix s ! t0 ! v \<noteq> None"
    using anchored_row[OF an t0(1) _ t0(2)] view_indices_range by blast
  then have "None \<notin> set (map (\<lambda>v. img_matrix s ! t0 ! v) view_indices)"
    by (metis (mono_tags, lifting) imageE list.set_map)
  from cat_filled[OF this] obtain cv where cv: "cat (map (\<lambda>v. img_matrix s ! t0 ! v) view_indices) = Inr cv" ..
  define ev where "ev = Run_img2vid_per_step (img_matrix s ! t0 ! v0)
      (view_polars p) (view_azims fo a) cm cv step
      (concat (map (\<lambda>t. map (\<lambda>v. latent_matrix s ! t ! v) view_indices) fi))"
  define call where "call = call_run_img2vid_per_step hp cfg (img_matrix s ! t0 ! v0)
      (view_polars p) (view_azims fo a) cm cv step
      (concat (map (\<lambda>t. map (\<lambda>v. latent_matrix s ! t ! v) view_indices) fi))
      (s\<lparr>frame_indices := fi\<rparr>)"
  from view2_ok[OF call_run_img2vid_per_step_length[OF hp]]
  obtain sm where sm: "view2 T V (fst call) = Inr sm" unfolding call_def by blast
  have f2: "frame_indices (snd call) = fi" "img_matrix (snd call) = img_matrix s"
    "trace (snd call) = trace s @ [ev]"
    by (simp_all add: call_def ev_def call_run_img2vid_per_step_fields)
  from latent_writes[of "enumerate 0 fi" "enumerate 0 view_indices" "\<lambda>i j. sm ! i ! j" "snd call"]
  obtain lm where lm: "for_loop (enumerate 0 (frame_indices (snd call)))
      (\<lambda>(i, t). for_loop (enumerate 0 view_indices) (\<lambda>(j, v) s. (Inr (), set_latent t v (sm ! i ! j) s)))
      (snd call) = (Inr (), (snd call)\<lparr>latent_matrix := lm\<rparr>)" unfolding f2(1) by blast
  have "dense_step fo hp cfg p a step s = (Inr (), (snd call)\<lparr>latent_matrix := lm\<rparr>)"
    using dense_step_unfold[OF cm[unfolded fi_def] cv[unfolded t0_def fi_def]
        call_def[unfolded t0_def fi_def] sm] lm by simp
  moreover have "fill_pos [ev] = []" by (simp add: ev_def)
  ultimately show ?thesis using f2 unfolding fi_def by auto
qed

lemma dense_steps_ok:
  assumes hp: "helpers_ok hp"
  shows "anchored s \<Longrightarrow> good_order (frame_indices s) \<Longrightarrow>
         \<exists>s'. for_loop steps (dense_step fo hp cfg p a) s = (Inr (), s') \<and>
           img_matrix s' = img_matrix s \<and>
           (\<exists>evs. trace s' = trace s @ evs \<and> fill_pos evs = []) \<and>
           frame_indices s' = (if even (length steps) then frame_indices s else rev (frame_indices s))"
proof (induction steps arbitrary: s)
  case Nil
  then show ?case by simp
next
  case (Cons k steps)
  from dense_step_ok[OF hp Cons.prems, of fo cfg p a k]
  obtain s1 e1 where s1: "dense_step fo hp cfg p a k s = (Inr (), s1)"
    "img_matrix s1 = img_matrix s" "trace s1 = trace s @ e1" "fill_pos e1 = []"
    "frame_indices s1 = rev (frame_indices s)" by blast
  have "anchored s1" using anchored_cong[OF Cons.prems(1) s1(2)] .
  moreover have "good_order (frame_indices s1)"
    using good_order_rev[OF Cons.prems(2)] s1(5) by simp
  ultimately obtain s2 e2 where s2: "for_loop steps (dense_step fo hp cfg p a) s1 = (Inr (), s2)"
    "img_matrix s2 = img_matrix s1" "trace s2 = trace s1 @ e2" "fill_pos e2 = []"
    "frame_indices s2 = (if even (length steps) then frame_indices s1 else rev (frame_indices s1))"
    using Cons.IH[of s1] by blast
  have "trace s2 = trace s @ (e1 @ e2)" "fill_pos (e1 @ e2) = []"
    using s1 s2 by (simp_all add: fill_pos_append)
  then have "\<exists>evs. trace s2 = trace s @ evs \<and> fill_pos evs = []" by blast
  with s1 s2 show ?case by simp
qed

subsection \<open>Windows of the dense pass\<close>

lemma window_eq: "window t0 = [t0, t0 + 1, t0 + 2, t0 + 3, t0 + 4]"
  by (simp add: window_def arange.simps T_def)

lemma window_starts_eq: "arange 0 (n_frames - 1) (T - 1) = [0, 4, 8, 12, 16]"
  by (simp add: arange.simps model_config)

lemma good_order_window:
  assumes "t0 \<in> set (arange 0 (n_frames - 1) (T - 1))"
  shows "good_order (window t0)"
proof -
  from assms have "t0 \<in> set [0, 4, 8, 12, 16]" by (simp only: window_starts_eq)
  then show ?thesis by (auto simp: window_eq good_order_def n_frames_def T_def)
qed


lemma helpers_ok_demo: "helpers_ok demo_helpers"
  by (simp add: helpers_ok_def demo_helpers_def model_config list_all_length)

lemma dims_ok_demo: "dims_ok demo_state"
  by (simp add: dims_ok_def demo_state_def model_config list_all_length)


lemma view_indices_upt: "view_indices = [1..<9]"
  by (simp add: view_indices_eq upt_rec)

lemma view_indices_mem: "v \<in> set view_indices \<longleftrightarrow> 1 \<le> v \<and> v \<le> 8"
  unfolding view_indices_upt by auto

lemma decode_slots_mem:
  "(t, v) \<in> set (decode_slots fi) \<longleftrightarrow> t \<in> set fi \<and> t \<noteq> 0 \<and> v \<in> set view_indices"
  using view_indices_range[of v] unfolding decode_slots_def by auto

lemma decode_slots_set:
  "set (decode_slots fi) = {(t, v). t \<in> set fi \<and> t \<noteq> 0 \<and> 1 \<le> v \<and> v \<le> 8}"
  using decode_slots_mem[of _ _ fi] view_indices_mem by auto

text \<open>C2, amended: the decode loop after the last step of a window (lines 214--218) never
  raises and assigns a decoded image, \<open>decode_latents(...) * 2 - 1\<close> of the slot's latent, to
  every slot \<open>(t, v)\<close> of the window's frames with \<open>t \<noteq> 0\<close> and \<open>v\<close> in 1..8, in the order of
  the loops and whatever the slot held before; it assigns no other slot, so the slots of
  frame 0 and of view 0 keep their contents. The guard is \<open>t != 0 and v != 0\<close>, not
  \<open>is None\<close>.\<close>

theorem dense_decode_assigns_window:
  assumes "dims_ok s" and "set (frame_indices s) \<subseteq> {..<n_frames}"
  shows "(\<exists>s'. decode_commit hp cfg s = (Inr (), s') \<and>
            wrote (decoded hp cfg (latent_matrix s)) (decode_slots (frame_indices s)) s s') \<and>
         set (decode_slots (frame_indices s)) =
           {(t, v). t \<in> set (frame_indices s) \<and> t \<noteq> 0 \<and> 1 \<le> v \<and> v \<le> 8}"
  using decode_commit_wrote[OF assms, of hp cfg] decode_slots_set[of "frame_indices s"]
  by blast

text \<open>C2, amended, on the concrete state at the start of the first window.\<close>

theorem dense_decode_assigns_window_witness:
  "dims_ok demo_state \<and> set (frame_indices demo_state) \<subseteq> {..<n_frames} \<and>
   (\<exists>s'. decode_commit demo_helpers demo_config demo_state = (Inr (), s') \<and>
      wrote (decoded demo_helpers demo_config (latent_matrix demo_state))
        (decode_slots (frame_indices demo_state)) demo_state s')"
proof -
  have f: "set (frame_indices demo_state) \<subseteq> {..<n_frames}"
    by (simp add: demo_state_def n_frames_def)
  from dense_decode_assigns_window[OF dims_ok_demo f, of demo_helpers demo_config] dims_ok_demo f
  show ?thesis by blast
qed

text \<open>C2, as stated, fails: slot \<open>(4, 1)\<close>, set by the anchor pass (to 7 in the concrete
  state), is overwritten by the decode loop of the window of frames 0..4 with the decoded
  latent.\<close>

theorem dense_decode_overwrites_anchor_slot:
  "img_matrix demo_state ! 4 ! 1 = Some 7 \<and>
   img_matrix (snd (decode_commit demo_helpers demo_config demo_state)) ! 4 ! 1 = Some 2002"
proof -
  have f: "set (frame_indices demo_state) \<subseteq> {..<n_frames}"
    by (simp add: demo_state_def n_frames_def)
  from decode_commit_wrote[OF dims_ok_demo f, of demo_helpers demo_config]
  obtain s' where s': "decode_commit demo_helpers demo_config demo_state = (Inr (), s')"
    and w: "wrote (decoded demo_helpers demo_config (latent_matrix demo_state))
              (decode_slots (frame_indices demo_state)) demo_state s'" by blast
  have "(4, 1) \<in> set (decode_slots (frame_indices demo_state))"
    by (simp add: decode_slots_set demo_state_def)
  from wrote_slot_in[OF w _ _ this]
  obtain x where x: "img_matrix s' ! 4 ! 1 = Some x"
    "decoded demo_helpers demo_config (latent_matrix demo_state) 4 1 x"
    by (auto simp: model_config)
  from x(2) have "x = 2002"
    by (simp add: decoded_def demo_helpers_def demo_state_def)
  moreover have "img_matrix demo_state ! 4 ! 1 = Some 7"
    by (simp add: demo_state_def)
  ultimately show ?thesis using x(1) s' by simp
qed




subsection \<open>The dense pass\<close>

lemma anchored_wrote:
  assumes an: "anchored s" and w: "wrote Q W s s'"
  shows "anchored s'"
  unfolding anchored_def
proof (intro conjI allI impI)
  show "dims_ok s'" by (rule wrote_dims[OF w])
next
  fix t assume t: "t < n_frames"
  have "v0 < n_views" by (simp add: model_config)
  from wrote_filled[OF w t this anchored_col[OF an t]]
  show "img_matrix s' ! t ! v0 \<noteq> None" .
next
  fix t v assume t: "t < n_frames" and v: "v < n_views" and m: "t mod (T - 1) = 0"
  from wrote_filled[OF w t v anchored_row[OF an t v m]]
  show "img_matrix s' ! t ! v \<noteq> None" .
qed

lemma anchored_dims: "anchored s \<Longrightarrow> dims_ok s"
  unfolding anchored_def by (rule conjunct1)

lemma dense_window_unfold:
  assumes "for_loop (range (num_steps cfg)) (dense_step fo hp cfg p a)
             (s\<lparr>frame_indices := window t0,
                latent_matrix := fst (randn hp n_frames n_views (rng s)),
                rng := snd (randn hp n_frames n_views (rng s))\<rparr>) = (Inr (), s3)"
  shows "dense_window fo hp cfg p a t0 s = decode_commit hp cfg s3"
  using assms by (simp add: dense_window_def Let_def split_def)

lemma dense_window_ok:
  assumes hp: "helpers_ok hp" and an: "anchored s"
    and t0: "t0 \<in> set (arange 0 (n_frames - 1) (T - 1))"
  shows "\<exists>s'. dense_window fo hp cfg p a t0 s = (Inr (), s') \<and>
           wrote any_image (decode_slots (dense_order cfg t0)) s s' \<and> anchored s'"
proof -
  define s2 where "s2 = s\<lparr>frame_indices := window t0,
                latent_matrix := fst (randn hp n_frames n_views (rng s)),
                rng := snd (randn hp n_frames n_views (rng s))\<rparr>"
  have i2: "img_matrix s2 = img_matrix s" and tr2: "trace s2 = trace s"
    and f2: "frame_indices s2 = window t0" by (simp_all add: s2_def)
  have an2: "anchored s2" by (rule anchored_cong[OF an i2])
  have go2: "good_order (frame_indices s2)" using good_order_window[OF t0] f2 by simp
  from dense_steps_ok[OF hp an2 go2, of "range (num_steps cfg)" fo cfg p a]
  obtain s3 evs where s3: "for_loop (range (num_steps cfg)) (dense_step fo hp cfg p a) s2 = (Inr (), s3)"
    and i3: "img_matrix s3 = img_matrix s2" and tr3: "trace s3 = trace s2 @ evs" "fill_pos evs = []"
    and f3: "frame_indices s3 = dense_order cfg t0"
    unfolding dense_order_def f2 by blast
  have w1: "wrote any_image [] s s3"
    by (rule wrote_nofill[OF anchored_dims[OF an], where evs = evs])
      (simp_all add: i3 i2 tr3 tr2)
  have d3: "dims_ok s3" by (rule wrote_dims[OF w1])
  have "good_order (frame_indices s3)"
    using go2 good_order_rev[OF go2] f3 f2 by (auto simp: dense_order_def split: if_splits)
  then have sub: "set (frame_indices s3) \<subseteq> {..<n_frames}" by (simp add: good_order_def)
  from decode_commit_wrote[OF d3 sub, of hp cfg]
  obtain s4 where s4: "decode_commit hp cfg s3 = (Inr (), s4)"
    and w2: "wrote (decoded hp cfg (latent_matrix s3)) (decode_slots (frame_indices s3)) s3 s4"
    by blast
  have w2': "wrote any_image (decode_slots (dense_order cfg t0)) s3 s4"
    using wrote_mono[OF w2, of any_image] f3 by (simp add: any_image_def)
  have w: "wrote any_image (decode_slots (dense_order cfg t0)) s s4"
    using wrote_trans[OF w1 w2'] by simp
  from dense_window_unfold[OF s3[unfolded s2_def]] s4 w anchored_wrote[OF an w]
  show ?thesis by simp
qed

lemma dense_pass_ok:
  assumes hp: "helpers_ok hp" and an: "anchored s"
  shows "\<exists>s'. dense_pass fo hp cfg p a s = (Inr (), s') \<and>
           wrote any_image
             (concat (map (\<lambda>t0. decode_slots (dense_order cfg t0)) (arange 0 (n_frames - 1) (T - 1))))
             s s' \<and> anchored s'"
  unfolding dense_pass_def
proof (rule for_loop_wrote[where P = anchored])
  show "anchored s" by (rule an)
  show "\<And>s. anchored s \<Longrightarrow> dims_ok s" by (rule anchored_dims)
  show "\<And>x s. x \<in> set (arange 0 (n_frames - 1) (T - 1)) \<Longrightarrow> anchored s \<Longrightarrow>
        \<exists>s'. dense_window fo hp cfg p a x s = (Inr (), s') \<and>
             wrote any_image (decode_slots (dense_order cfg x)) s s' \<and> anchored s'"
    by (rule dense_window_ok[OF hp])
qed

lemma dense_order_set: "set (dense_order cfg t0) = {t0, t0 + 1, t0 + 2, t0 + 3, t0 + 4}"
  by (auto simp: dense_order_def window_eq)

lemma dense_slots_mem:
  "(t, v) \<in> set (concat (map (\<lambda>t0. decode_slots (dense_order cfg t0))
                     (arange 0 (n_frames - 1) (T - 1)))) \<longleftrightarrow>
   1 \<le> t \<and> t \<le> 20 \<and> 1 \<le> v \<and> v \<le> 8"
  unfolding window_starts_eq
  by (simp add: decode_slots_mem dense_order_set view_indices_mem) arith

subsection \<open>The anchor pass\<close>

lemma guarded_refl: "dims_ok s \<Longrightarrow> guarded s s"
  unfolding guarded_def by (rule exI[of _ "[]"]) (simp add: wrote_refl)

lemma guarded_dims: "guarded s s' \<Longrightarrow> dims_ok s'"
  unfolding guarded_def by (auto dest: wrote_dims)

lemma guarded_keeps:
  assumes g: "guarded s s'" and t: "t < n_frames" and v: "v < n_views"
    and f: "img_matrix s ! t ! v \<noteq> None"
  shows "img_matrix s' ! t ! v = img_matrix s ! t ! v"
proof -
  from g obtain W where w: "wrote any_image W s s'"
    and n: "\<forall>(t, v)\<in>set W. t < n_frames \<and> v < n_views \<and> img_matrix s ! t ! v = None"
    unfolding guarded_def by blast
  from n f have "(t, v) \<notin> set W" by auto
  from wrote_slot_out[OF w t v this] show ?thesis .
qed

lemma guarded_trans:
  assumes a: "guarded s s'" and b: "guarded s' s''"
  shows "guarded s s''"
proof -
  from a obtain W1 where w1: "wrote any_image W1 s s'"
    and n1: "\<forall>(t, v)\<in>set W1. t < n_frames \<and> v < n_views \<and> img_matrix s ! t ! v = None"
    unfolding guarded_def by blast
  from b obtain W2 where w2: "wrote any_image W2 s' s''"
    and n2: "\<forall>(t, v)\<in>set W2. t < n_frames \<and> v < n_views \<and> img_matrix s' ! t ! v = None"
    unfolding guarded_def by blast
  have "t < n_frames \<and> v < n_views \<and> img_matrix s ! t ! v = None" if "(t, v) \<in> set W2" for t v
  proof -
    from n2 that have r: "t < n_frames" "v < n_views" and e: "img_matrix s' ! t ! v = None"
      by auto
    have "(t, v) \<notin> set W1"
    proof
      assume "(t, v) \<in> set W1"
      from wrote_slot_in[OF w1 r this] e show False by simp
    qed
    from wrote_slot_out[OF w1 r this] e r show ?thesis by simp
  qed
  with n1 have "\<forall>(t, v)\<in>set (W1 @ W2). t < n_frames \<and> v < n_views \<and> img_matrix s ! t ! v = None"
    by auto
  with wrote_trans[OF w1 w2] show ?thesis unfolding guarded_def by blast
qed

lemma guarded_nofill:
  assumes "dims_ok s" "img_matrix s' = img_matrix s" "trace s' = trace s @ evs" "fill_pos evs = []"
  shows "guarded s s'"
  unfolding guarded_def
  by (rule exI[of _ "[]"]) (simp add: wrote_nofill[OF assms])

lemma guarded_step:
  assumes d: "dims_ok s" and t: "t < n_frames" and v: "v < n_views"
  shows "\<exists>s'. (if img_matrix s ! t ! v = None then (Inr (), set_slot t v x s) else (Inr (), s))
            = (Inr (), s') \<and> guarded s s' \<and> img_matrix s' ! t ! v \<noteq> None"
proof (cases "img_matrix s ! t ! v = None")
  case True
  have q: "any_image t v x" by (simp add: any_image_def)
  have w: "wrote any_image [(t, v)] s (set_slot t v x s)"
    by (rule wrote_set_slot[where Q = any_image, OF d t v q])
  then have "guarded s (set_slot t v x s)"
    unfolding guarded_def using True t v by (intro exI[of _ "[(t, v)]"]) simp
  moreover have "img_matrix (set_slot t v x s) ! t ! v \<noteq> None"
    by (simp add: slot_set_slot[OF d t v])
  ultimately show ?thesis unfolding if_P[OF True] by blast
next
  case False
  with guarded_refl[OF d] show ?thesis unfolding if_not_P[OF False] by blast
qed

lemma for_loop_guarded:
  assumes d: "dims_ok s"
    and body: "\<And>x s. x \<in> set xs \<Longrightarrow> dims_ok s
                 \<Longrightarrow> \<exists>s'. body x s = (Inr (), s') \<and> guarded s s' \<and> F x s'"
    and stable: "\<And>x s s'. x \<in> set xs \<Longrightarrow> F x s \<Longrightarrow> guarded s s' \<Longrightarrow> F x s'"
  shows "\<exists>s'. for_loop xs body s = (Inr (), s') \<and> guarded s s' \<and> (\<forall>x\<in>set xs. F x s')"
proof (rule for_loop_total[where I = "\<lambda>pre s'. guarded s s' \<and> (\<forall>x\<in>set pre. F x s')"])
  show "guarded s s \<and> (\<forall>x\<in>set []. F x s)" using guarded_refl[OF d] by simp
next
  fix pre x post s1
  assume xs: "xs = pre @ x # post" and inv: "guarded s s1 \<and> (\<forall>x\<in>set pre. F x s1)"
  have x: "x \<in> set xs" using xs by simp
  from body[OF x guarded_dims[OF conjunct1[OF inv]]]
  obtain s2 where b: "body x s1 = (Inr (), s2)" and g: "guarded s1 s2" and fx: "F x s2" by blast
  have "F y s2" if "y \<in> set pre" for y
  proof (rule stable[OF _ _ g])
    show "y \<in> set xs" using that xs by simp
    show "F y s1" using inv that by blast
  qed
  with fx have "\<forall>y\<in>set (pre @ [x]). F y s2" by auto
  with b guarded_trans[OF conjunct1[OF inv] g]
  show "\<exists>s'. body x s1 = (Inr (), s') \<and> guarded s s' \<and> (\<forall>x\<in>set (pre @ [x]). F x s')" by blast
qed

lemma anchor_frames_eq: "arange (T - 1) n_frames (T - 1) = [4, 8, 12, 16, 20]"
  by (simp add: arange.simps model_config)

lemma call_run_img2vid_fields:
  "img_matrix (snd (call_run_img2vid hp cfg x p a m w s)) = img_matrix s"
  "trace (snd (call_run_img2vid hp cfg x p a m w s)) = trace s @ [Run_img2vid x p a m w]"
  "frame_indices (snd (call_run_img2vid hp cfg x p a m w s)) = frame_indices s"
  by (auto simp: call_run_img2vid_def split: prod.splits)

lemma call_run_img2vid_length:
  assumes "helpers_ok hp"
  shows "length (fst (call_run_img2vid hp cfg x p a m w s)) = T * V"
proof -
  have "fst (call_run_img2vid hp cfg x p a m w s) = fst (run_img2vid hp cfg x p a m w (rng s))"
    by (simp add: call_run_img2vid_def split_def Let_def)
  with assms show ?thesis by (simp add: helpers_ok_def)
qed

lemma anchor_pass_unfold:
  assumes "cat (map (\<lambda>t. img_matrix s ! t ! v0) (arange (T - 1) n_frames (T - 1))) = Inr cm"
    and "cat (map (\<lambda>v. img_matrix s ! 0 ! v) view_indices) = Inr cv"
    and "call = call_run_img2vid hp cfg (img_matrix s ! 0 ! v0) (view_polars p) (view_azims fo a)
           cm cv (s\<lparr>frame_indices := arange (T - 1) n_frames (T - 1)\<rparr>)"
    and "view2 T V (fst call) = Inr sm"
  shows "anchor_pass fo hp cfg p a s =
     for_loop (enumerate 0 (frame_indices (snd call)))
       (\<lambda>(i, t). for_loop (enumerate 0 view_indices)
          (\<lambda>(j, v) s.
             if img_matrix s ! t ! v = None
             then (Inr (), set_slot t v (scale_shift hp (unsqueeze hp (sm ! i ! j))) s)
             else (Inr (), s))) (snd call)"
  using assms(1,2,4) unfolding assms(3)
  by (simp add: anchor_pass_def Let_def split_def)


lemma snd_enumerate_mem: "y \<in> set (enumerate n xs) \<Longrightarrow> snd y \<in> set xs"
  by (induction xs arbitrary: n) auto

lemma mem_enumerate: "x \<in> set xs \<Longrightarrow> \<exists>i. (i, x) \<in> set (enumerate n xs)"
  by (induction xs arbitrary: n) auto

lemma anchor_rows:
  assumes "t < n_frames" "t mod (T - 1) = 0" "t \<noteq> 0"
  shows "t \<in> set (arange (T - 1) n_frames (T - 1))"
proof -
  from assms have "t < 21" "t mod 4 = 0" "t \<noteq> 0" by (simp_all add: model_config)
  then have "t = 4 \<or> t = 8 \<or> t = 12 \<or> t = 16 \<or> t = 20" by presburger
  then show ?thesis unfolding anchor_frames_eq by auto
qed

lemma anchor_frames_range: "t \<in> set (arange (T - 1) n_frames (T - 1)) \<Longrightarrow> t < n_frames"
  unfolding anchor_frames_eq by (auto simp: n_frames_def)

lemma anchor_pass_ok:
  assumes hp: "helpers_ok hp" and d: "dims_ok s"
    and col0: "\<forall>t<n_frames. img_matrix s ! t ! v0 \<noteq> None"
    and row0: "\<forall>v<n_views. img_matrix s ! 0 ! v \<noteq> None"
  shows "\<exists>s'. anchor_pass fo hp cfg p a s = (Inr (), s') \<and> guarded s s' \<and> anchored s'"
proof -
  define af where "af = arange (T - 1) n_frames (T - 1)"
  have "\<And>t. t \<in> set af \<Longrightarrow> img_matrix s ! t ! v0 \<noteq> None"
    using col0 anchor_frames_range unfolding af_def by blast
  then have "None \<notin> set (map (\<lambda>t. img_matrix s ! t ! v0) af)"
    by (metis (mono_tags, lifting) imageE list.set_map)
  from cat_filled[OF this] obtain cm where cm: "cat (map (\<lambda>t. img_matrix s ! t ! v0) af) = Inr cm" ..
  have "\<And>v. v \<in> set view_indices \<Longrightarrow> img_matrix s ! 0 ! v \<noteq> None"
    using row0 view_indices_range by blast
  then have "None \<notin> set (map (\<lambda>v. img_matrix s ! 0 ! v) view_indices)"
    by (metis (mono_tags, lifting) imageE list.set_map)
  from cat_filled[OF this] obtain cv where cv: "cat (map (\<lambda>v. img_matrix s ! 0 ! v) view_indices) = Inr cv" ..
  define call where "call = call_run_img2vid hp cfg (img_matrix s ! 0 ! v0) (view_polars p)
      (view_azims fo a) cm cv (s\<lparr>frame_indices := af\<rparr>)"
  define s1 where "s1 = snd call"
  from view2_ok[OF call_run_img2vid_length[OF hp]]
  obtain sm where sm: "view2 T V (fst call) = Inr sm" unfolding call_def by blast
  have f1: "frame_indices s1 = af" "img_matrix s1 = img_matrix s"
    "trace s1 = trace s @ [Run_img2vid (img_matrix s ! 0 ! v0) (view_polars p) (view_azims fo a) cm cv]"
    by (simp_all add: s1_def call_def call_run_img2vid_fields)
  have g1: "guarded s s1"
    by (rule guarded_nofill[OF d f1(2) f1(3)]) simp
  define F where "F = (\<lambda>(x :: nat \<times> nat) (s' :: ('a, 'b, 'c) state).
      \<forall>y\<in>set (enumerate 0 view_indices). img_matrix s' ! snd x ! snd y \<noteq> None)"
  have loops: "\<exists>s'. for_loop (enumerate 0 af)
       (\<lambda>(i, t). for_loop (enumerate 0 view_indices)
          (\<lambda>(j, v) s.
             if img_matrix s ! t ! v = None
             then (Inr (), set_slot t v (scale_shift hp (unsqueeze hp (sm ! i ! j))) s)
             else (Inr (), s))) s1 = (Inr (), s') \<and> guarded s1 s' \<and>
       (\<forall>x\<in>set (enumerate 0 af). F x s')"
  proof (rule for_loop_guarded)
    show "dims_ok s1" by (rule guarded_dims[OF g1])
  next
    fix x :: "nat \<times> nat" and s2 :: "('a, 'b, 'c) state"
    assume xin: "x \<in> set (enumerate 0 af)" and d2: "dims_ok s2"
    obtain i t where x: "x = (i, t)" by (cases x)
    from snd_enumerate_mem[OF xin] x have "t \<in> set af" by simp
    then have t: "t < n_frames" using anchor_frames_range unfolding af_def by blast
    have "\<exists>s'. for_loop (enumerate 0 view_indices)
          (\<lambda>(j, v) s.
             if img_matrix s ! t ! v = None
             then (Inr (), set_slot t v (scale_shift hp (unsqueeze hp (sm ! i ! j))) s)
             else (Inr (), s)) s2 = (Inr (), s') \<and> guarded s2 s' \<and>
          (\<forall>y\<in>set (enumerate 0 view_indices). img_matrix s' ! t ! snd y \<noteq> None)"
    proof (rule for_loop_guarded)
      show "dims_ok s2" by (rule d2)
    next
      fix y :: "nat \<times> nat" and s3 :: "('a, 'b, 'c) state"
      assume yin: "y \<in> set (enumerate 0 view_indices)" and d3: "dims_ok s3"
      obtain j v where y: "y = (j, v)" by (cases y)
      from snd_enumerate_mem[OF yin] y have "v \<in> set view_indices" by simp
      then have v: "v < n_views" using view_indices_range by blast
      from guarded_step[OF d3 t v, of "scale_shift hp (unsqueeze hp (sm ! i ! j))"]
      show "\<exists>s'. (case y of (j, v) \<Rightarrow> \<lambda>s.
             if img_matrix s ! t ! v = None
             then (Inr (), set_slot t v (scale_shift hp (unsqueeze hp (sm ! i ! j))) s)
             else (Inr (), s)) s3 = (Inr (), s') \<and> guarded s3 s' \<and>
             img_matrix s' ! t ! snd y \<noteq> None"
        unfolding y by simp
    next
      fix y :: "nat \<times> nat" and s3 s4 :: "('a, 'b, 'c) state"
      assume yin: "y \<in> set (enumerate 0 view_indices)"
        and f: "img_matrix s3 ! t ! snd y \<noteq> None" and g: "guarded s3 s4"
      from yin have "snd y \<in> set view_indices" by (rule snd_enumerate_mem)
      then have v: "snd y < n_views" using view_indices_range by blast
      from guarded_keeps[OF g t v f] f show "img_matrix s4 ! t ! snd y \<noteq> None" by simp
    qed
    then show "\<exists>s'. (case x of (i, t) \<Rightarrow> for_loop (enumerate 0 view_indices)
          (\<lambda>(j, v) s.
             if img_matrix s ! t ! v = None
             then (Inr (), set_slot t v (scale_shift hp (unsqueeze hp (sm ! i ! j))) s)
             else (Inr (), s))) s2 = (Inr (), s') \<and> guarded s2 s' \<and> F x s'"
      unfolding x F_def by simp
  next
    fix x :: "nat \<times> nat" and s3 s4 :: "('a, 'b, 'c) state"
    assume xin: "x \<in> set (enumerate 0 af)" and f: "F x s3" and g: "guarded s3 s4"
    from xin have "snd x \<in> set af" by (rule snd_enumerate_mem)
    then have t: "snd x < n_frames" using anchor_frames_range unfolding af_def by blast
    show "F x s4" unfolding F_def
    proof
      fix y assume yin: "y \<in> set (enumerate 0 view_indices)"
      then have "snd y \<in> set view_indices" by (rule snd_enumerate_mem)
      then have v: "snd y < n_views" using view_indices_range by blast
      from f yin have fy: "img_matrix s3 ! snd x ! snd y \<noteq> None" unfolding F_def by blast
      from guarded_keeps[OF g t v fy] fy show "img_matrix s4 ! snd x ! snd y \<noteq> None" by simp
    qed
  qed
  then obtain s' where s': "for_loop (enumerate 0 af)
       (\<lambda>(i, t). for_loop (enumerate 0 view_indices)
          (\<lambda>(j, v) s.
             if img_matrix s ! t ! v = None
             then (Inr (), set_slot t v (scale_shift hp (unsqueeze hp (sm ! i ! j))) s)
             else (Inr (), s))) s1 = (Inr (), s')"
    and g2: "guarded s1 s'" and F: "\<forall>x\<in>set (enumerate 0 af). F x s'" by blast
  have g: "guarded s s'" by (rule guarded_trans[OF g1 g2])
  have res: "anchor_pass fo hp cfg p a s = (Inr (), s')"
    using anchor_pass_unfold[OF cm[unfolded af_def] cv call_def[unfolded af_def] sm] s'
    unfolding s1_def[symmetric] f1(1) by simp
  have filled: "img_matrix s' ! t ! v \<noteq> None"
    if "t \<in> set af" "v \<in> set view_indices" for t v
  proof -
    from mem_enumerate[OF that(1)] obtain i where "(i, t) \<in> set (enumerate 0 af)" ..
    moreover from mem_enumerate[OF that(2)]
    obtain j where "(j, v) \<in> set (enumerate 0 view_indices)" ..
    ultimately show ?thesis using F unfolding F_def by fastforce
  qed
  have "anchored s'" unfolding anchored_def
  proof (intro conjI allI impI)
    show "dims_ok s'" by (rule guarded_dims[OF g])
  next
    fix t assume t: "t < n_frames"
    have v: "v0 < n_views" by (simp add: model_config)
    from col0 t have c: "img_matrix s ! t ! v0 \<noteq> None" by blast
    from guarded_keeps[OF g t v c] c show "img_matrix s' ! t ! v0 \<noteq> None" by simp
  next
    fix t v assume t: "t < n_frames" and v: "v < n_views" and m: "t mod (T - 1) = 0"
    show "img_matrix s' ! t ! v \<noteq> None"
    proof (cases "t = 0")
      case True
      from row0 v True have c: "img_matrix s ! t ! v \<noteq> None" by blast
      from guarded_keeps[OF g t v c] c show ?thesis by simp
    next
      case False
      show ?thesis
      proof (cases "v = 0")
        case True
        from col0 t True have c: "img_matrix s ! t ! v \<noteq> None" by (simp add: v0_def)
        from guarded_keeps[OF g t v c] c show ?thesis by simp
      next
        case F2: False
        have "t \<in> set af" unfolding af_def by (rule anchor_rows[OF t m False])
        moreover have "v \<in> set view_indices"
          using v F2 by (simp add: view_indices_mem model_config)
        ultimately show ?thesis by (rule filled)
      qed
    qed
  qed
  with res g show ?thesis by blast
qed

subsection \<open>Initialising the grid\<close>

lemma dims_ok_fresh: "dims_ok (s\<lparr>img_matrix := replicate n_frames (replicate n_views None)\<rparr>)"
  by (simp add: dims_ok_def list_all_length)

lemma getitem_ok: "i < length xs \<Longrightarrow> getitem xs i = Inr (xs ! i)"
  by (simp add: getitem_def)

lemma enumerate_subsampled:
  "x \<in> set (enumerate 0 subsampled_views) \<Longrightarrow> fst x < n_views \<and> snd x < n_views_sv3d"
  by (auto simp: subsampled_views_def model_config)

lemma init_matrix_unfold:
  assumes "for_loop (enumerate 0 subsampled_views)
             (\<lambda>(i, v) s. case getitem images_t0 v of
                  Inl e \<Rightarrow> (Inl e, s)
                | Inr x \<Rightarrow> (Inr (), set_slot 0 i (unsqueeze hp x) s))
             (s\<lparr>img_matrix := replicate n_frames (replicate n_views None)\<rparr>) = (Inr (), s2)"
  shows "init_matrix hp images_t0 images_v0 s =
     for_loop [0..<n_frames]
       (\<lambda>t s. case getitem images_v0 t of
            Inl e \<Rightarrow> (Inl e, s)
          | Inr x \<Rightarrow> (Inr (), set_slot t 0 x s)) s2"
  using assms by (simp add: init_matrix_def Let_def)

lemma init_row_slots:
  "(t, v) \<in> set (concat (map (\<lambda>x. [(0, fst x)]) (enumerate 0 subsampled_views)))
     \<longleftrightarrow> t = 0 \<and> v < n_views"
  by (auto simp: subsampled_views_def model_config)

lemma init_col_slots:
  "(t, v) \<in> set (concat (map (\<lambda>t. [(t, 0)]) [0..<n_frames])) \<longleftrightarrow> t < n_frames \<and> v = 0"
  by auto

lemma init_matrix_ok:
  assumes lt: "length images_t0 = n_views_sv3d" and lv: "length images_v0 = n_frames"
  shows "\<exists>s'. init_matrix hp images_t0 images_v0 s = (Inr (), s') \<and> dims_ok s' \<and>
           (\<forall>t<n_frames. img_matrix s' ! t ! v0 = Some (images_v0 ! t)) \<and>
           (\<forall>v<n_views. img_matrix s' ! 0 ! v \<noteq> None) \<and>
           (\<forall>t<n_frames. \<forall>v<n_views. t \<noteq> 0 \<and> v \<noteq> 0 \<longrightarrow> img_matrix s' ! t ! v = None)"
proof -
  define s1 where "s1 = s\<lparr>img_matrix := replicate n_frames (replicate n_views None)\<rparr>"
  have d1: "dims_ok s1" unfolding s1_def by (rule dims_ok_fresh)
  have e1: "img_matrix s1 ! t ! v = None" if "t < n_frames" "v < n_views" for t v
    using that by (simp add: s1_def)
  have "\<exists>s'. for_loop (enumerate 0 subsampled_views)
             (\<lambda>(i, v) s. case getitem images_t0 v of
                  Inl e \<Rightarrow> (Inl e, s)
                | Inr x \<Rightarrow> (Inr (), set_slot 0 i (unsqueeze hp x) s)) s1 = (Inr (), s') \<and>
          wrote any_image (concat (map (\<lambda>x. [(0, fst x)]) (enumerate 0 subsampled_views))) s1 s' \<and>
          dims_ok s'"
  proof (rule for_loop_wrote[where P = dims_ok])
    show "dims_ok s1" by (rule d1)
    show "\<And>s. dims_ok s \<Longrightarrow> dims_ok s" .
  next
    fix x :: "nat \<times> nat" and s2 :: "('a, 'b, 'c) state"
    assume xin: "x \<in> set (enumerate 0 subsampled_views)" and d2: "dims_ok s2"
    obtain i v where x: "x = (i, v)" by (cases x)
    from enumerate_subsampled[OF xin] x lt have i: "i < n_views" and v: "v < length images_t0"
      by simp_all
    have z: "(0::nat) < n_frames" by (simp add: n_frames_def)
    have q: "any_image 0 i (unsqueeze hp (images_t0 ! v))" by (simp add: any_image_def)
    have w: "wrote any_image [(0, i)] s2 (set_slot 0 i (unsqueeze hp (images_t0 ! v)) s2)"
      by (rule wrote_set_slot[where Q = any_image, OF d2 z i q])
    from w wrote_dims[OF w]
    show "\<exists>s'. (case x of (i, v) \<Rightarrow> \<lambda>s. case getitem images_t0 v of
                  Inl e \<Rightarrow> (Inl e, s)
                | Inr x \<Rightarrow> (Inr (), set_slot 0 i (unsqueeze hp x) s)) s2 = (Inr (), s') \<and>
              wrote any_image [(0, fst x)] s2 s' \<and> dims_ok s'"
      unfolding x by (simp add: getitem_ok[OF v])
  qed
  then obtain s2 where s2: "for_loop (enumerate 0 subsampled_views)
             (\<lambda>(i, v) s. case getitem images_t0 v of
                  Inl e \<Rightarrow> (Inl e, s)
                | Inr x \<Rightarrow> (Inr (), set_slot 0 i (unsqueeze hp x) s)) s1 = (Inr (), s2)"
    and w1: "wrote any_image (concat (map (\<lambda>x. [(0, fst x)]) (enumerate 0 subsampled_views))) s1 s2"
    and d2: "dims_ok s2" by blast
  have "\<exists>s'. for_loop [0..<n_frames]
       (\<lambda>t s. case getitem images_v0 t of
            Inl e \<Rightarrow> (Inl e, s)
          | Inr x \<Rightarrow> (Inr (), set_slot t 0 x s)) s2 = (Inr (), s') \<and>
       wrote (input_frame images_v0) (concat (map (\<lambda>t. [(t, 0)]) [0..<n_frames])) s2 s' \<and>
       dims_ok s'"
  proof (rule for_loop_wrote[where P = dims_ok])
    show "dims_ok s2" by (rule d2)
    show "\<And>s. dims_ok s \<Longrightarrow> dims_ok s" .
  next
    fix t and s3 :: "('a, 'b, 'c) state"
    assume tin: "t \<in> set [0..<n_frames]" and d3: "dims_ok s3"
    then have t: "t < n_frames" by simp
    with lv have tl: "t < length images_v0" by simp
    have z: "(0::nat) < n_views" by (simp add: model_config)
    have q: "input_frame images_v0 t 0 (images_v0 ! t)" by (simp add: input_frame_def)
    have w: "wrote (input_frame images_v0) [(t, 0)] s3 (set_slot t 0 (images_v0 ! t) s3)"
      by (rule wrote_set_slot[where Q = "input_frame images_v0", OF d3 t z q])
    from w wrote_dims[OF w]
    show "\<exists>s'. (case getitem images_v0 t of
            Inl e \<Rightarrow> (Inl e, s3)
          | Inr x \<Rightarrow> (Inr (), set_slot t 0 x s3)) = (Inr (), s') \<and>
          wrote (input_frame images_v0) [(t, 0)] s3 s' \<and> dims_ok s'"
      by (simp add: getitem_ok[OF tl])
  qed
  then obtain s3 where s3: "for_loop [0..<n_frames]
       (\<lambda>t s. case getitem images_v0 t of
            Inl e \<Rightarrow> (Inl e, s)
          | Inr x \<Rightarrow> (Inr (), set_slot t 0 x s)) s2 = (Inr (), s3)"
    and w2: "wrote (input_frame images_v0) (concat (map (\<lambda>t. [(t, 0)]) [0..<n_frames])) s2 s3"
    and d3: "dims_ok s3" by blast
  have res: "init_matrix hp images_t0 images_v0 s = (Inr (), s3)"
    using init_matrix_unfold[OF s2[unfolded s1_def]] s3 by simp
  have col: "img_matrix s3 ! t ! v0 = Some (images_v0 ! t)" if t: "t < n_frames" for t
  proof -
    have z: "(0::nat) < n_views" by (simp add: model_config)
    have "(t, 0) \<in> set (concat (map (\<lambda>t. [(t, 0)]) [0..<n_frames]))"
      unfolding init_col_slots using t by simp
    from wrote_slot_in[OF w2 t z this] show ?thesis by (auto simp: input_frame_def v0_def)
  qed
  have row: "img_matrix s3 ! 0 ! v \<noteq> None" if v: "v < n_views" for v
  proof (cases "v = 0")
    case True
    have "(0::nat) < n_frames" by (simp add: n_frames_def)
    from col[OF this] True show ?thesis by (simp add: v0_def)
  next
    case False
    have z: "(0::nat) < n_frames" by (simp add: n_frames_def)
    have "(0, v) \<notin> set (concat (map (\<lambda>t. [(t, 0)]) [0..<n_frames]))"
      unfolding init_col_slots using False by simp
    from wrote_slot_out[OF w2 z v this] have eq: "img_matrix s3 ! 0 ! v = img_matrix s2 ! 0 ! v" .
    have "(0, v) \<in> set (concat (map (\<lambda>x. [(0, fst x)]) (enumerate 0 subsampled_views)))"
      unfolding init_row_slots using v by simp
    from wrote_slot_in[OF w1 z v this] eq show ?thesis by auto
  qed
  have rest: "img_matrix s3 ! t ! v = None"
    if t: "t < n_frames" and v: "v < n_views" and n: "t \<noteq> 0 \<and> v \<noteq> 0" for t v
  proof -
    have "(t, v) \<notin> set (concat (map (\<lambda>t. [(t, 0)]) [0..<n_frames]))"
      unfolding init_col_slots using n by simp
    from wrote_slot_out[OF w2 t v this] have eq: "img_matrix s3 ! t ! v = img_matrix s2 ! t ! v" .
    have "(t, v) \<notin> set (concat (map (\<lambda>x. [(0, fst x)]) (enumerate 0 subsampled_views)))"
      unfolding init_row_slots using n by simp
    from wrote_slot_out[OF w1 t v this] eq e1[OF t v] show ?thesis by simp
  qed
  from res d3 col row rest show ?thesis by blast
qed

subsection \<open>A valid run completes\<close>

lemma camera_viewpoints_ok:
  assumes "valid_input hp cfg"
  shows "\<exists>p a. camera_viewpoints fo cfg = Inr (p, a)"
proof -
  from assms have e: "case elevations_deg cfg of ElevNone \<Rightarrow> False | ElevScalar e \<Rightarrow> True
      | ElevList es \<Rightarrow> length es = n_views_sv3d"
    and z: "case azimuths_deg cfg of None \<Rightarrow> True | Some az \<Rightarrow> length az = n_views_sv3d"
    unfolding valid_input_def by blast+
  show ?thesis
  proof (cases "azimuths_deg cfg")
    case None
    with e show ?thesis
      by (cases "elevations_deg cfg") (simp_all add: camera_viewpoints_def Let_def)
  next
    case (Some az)
    with e z show ?thesis
      by (cases "elevations_deg cfg") (simp_all add: camera_viewpoints_def Let_def)
  qed
qed

lemma length_roll1: "length (roll1 xs) = length xs"
  by (cases xs rule: rev_cases) (simp_all add: roll1_def)

lemma call_sample_sv3d_length:
  assumes "helpers_ok hp"
  shows "length (fst (call_sample_sv3d hp cfg x p a s)) = n_views_sv3d"
proof -
  have "fst (call_sample_sv3d hp cfg x p a s) = fst (sample_sv3d hp cfg x p a (rng s))"
    by (simp add: call_sample_sv3d_def split_def Let_def)
  with assms show ?thesis by (simp add: helpers_ok_def)
qed

lemma save_seed_videos_count: "fst (save_seed_videos s out) = base_count_of (folder out)"
  by (simp add: save_seed_videos_def Let_def)

lemma sample_init_unfold:
  assumes "read_video hp cfg = Inr frames" and "camera_viewpoints fo cfg = Inr (p, a)"
    and "getitem frames 0 = Inr x"
    and "sv = call_sample_sv3d hp cfg x p a (initial_state hp cfg)"
    and "init_matrix hp (roll1 (fst sv)) frames (snd sv) = (Inr (), s1)"
  shows "sample_init fo hp cfg files = (Inr (p, a), s1, initial_outputs files)"
  using assms(1,2,3,5) unfolding assms(4)
  by (simp add: sample_init_def Let_def split_def)

lemma sample_anchor_unfold:
  assumes "sample_init fo hp cfg files = (Inr (p, a), s1, out)"
    and "anchor_pass fo hp cfg p a s1 = (Inr (), s2)"
  shows "sample_anchor fo hp cfg files =
           (Inr (p, a, fst (save_seed_videos s1 out)), s2, snd (save_seed_videos s1 out))"
  using assms by (simp add: sample_anchor_def Let_def split_def)

lemma sample_dense_unfold:
  assumes "sample_anchor fo hp cfg files = (Inr (p, a, b), s2, out)"
    and "dense_pass fo hp cfg p a s2 = (Inr (), s3)"
  shows "sample_dense fo hp cfg files = (Inr (p, a, b), s3, out)"
  using assms by (simp add: sample_dense_def)

lemma sample_unfold:
  assumes "sample_dense fo hp cfg files = (Inr (p, a, b), s3, out)"
  shows "sample fo hp cfg files = (Inr (), s3, save_outputs b s3 out)"
  using assms by (simp add: sample_def)

text \<open>The folder after the seed videos of a run started on \<open>files\<close>.\<close>

lemma run_ok:
  assumes hp: "helpers_ok hp" and vi: "valid_input hp cfg"
  shows "\<exists>frames p a s1 s2 s3.
     read_video hp cfg = Inr frames \<and> length frames = n_frames \<and>
     sample_init fo hp cfg files = (Inr (p, a), s1, initial_outputs files) \<and> dims_ok s1 \<and>
     (\<forall>t<n_frames. img_matrix s1 ! t ! v0 = Some (frames ! t)) \<and>
     (\<forall>v<n_views. img_matrix s1 ! 0 ! v \<noteq> None) \<and>
     (\<forall>t<n_frames. \<forall>v<n_views. t \<noteq> 0 \<and> v \<noteq> 0 \<longrightarrow> img_matrix s1 ! t ! v = None) \<and>
     sample_anchor fo hp cfg files =
       (Inr (p, a, base_count_of files), s2, snd (save_seed_videos s1 (initial_outputs files))) \<and>
     guarded s1 s2 \<and> anchored s2 \<and>
     sample_dense fo hp cfg files =
       (Inr (p, a, base_count_of files), s3, snd (save_seed_videos s1 (initial_outputs files))) \<and>
     wrote any_image
       (concat (map (\<lambda>t0. decode_slots (dense_order cfg t0)) (arange 0 (n_frames - 1) (T - 1))))
       s2 s3 \<and> anchored s3 \<and>
     sample fo hp cfg files =
       (Inr (), s3, save_outputs (base_count_of files) s3
                      (snd (save_seed_videos s1 (initial_outputs files))))"
proof -
  from vi obtain frames where fr: "read_video hp cfg = Inr frames" and lf: "length frames = n_frames"
    unfolding valid_input_def by (cases "read_video hp cfg") auto
  from camera_viewpoints_ok[OF vi, of fo] obtain p a where cv: "camera_viewpoints fo cfg = Inr (p, a)"
    by blast
  have g0: "getitem frames 0 = Inr (frames ! 0)"
    by (rule getitem_ok) (simp add: lf n_frames_def)
  define sv where "sv = call_sample_sv3d hp cfg (frames ! 0) p a (initial_state hp cfg)"
  have lt: "length (roll1 (fst sv)) = n_views_sv3d"
    unfolding sv_def length_roll1 by (rule call_sample_sv3d_length[OF hp])
  from init_matrix_ok[OF lt lf, of hp "snd sv"]
  obtain s1 where i1: "init_matrix hp (roll1 (fst sv)) frames (snd sv) = (Inr (), s1)"
    and d1: "dims_ok s1"
    and col: "\<forall>t<n_frames. img_matrix s1 ! t ! v0 = Some (frames ! t)"
    and row: "\<forall>v<n_views. img_matrix s1 ! 0 ! v \<noteq> None"
    and rest: "\<forall>t<n_frames. \<forall>v<n_views. t \<noteq> 0 \<and> v \<noteq> 0 \<longrightarrow> img_matrix s1 ! t ! v = None"
    by blast
  have r1: "sample_init fo hp cfg files = (Inr (p, a), s1, initial_outputs files)"
    by (rule sample_init_unfold[OF fr cv g0 sv_def i1])
  have col': "\<forall>t<n_frames. img_matrix s1 ! t ! v0 \<noteq> None" using col by simp
  from anchor_pass_ok[OF hp d1 col' row, of fo cfg p a]
  obtain s2 where a2: "anchor_pass fo hp cfg p a s1 = (Inr (), s2)"
    and g2: "guarded s1 s2" and an2: "anchored s2" by blast
  have bc: "fst (save_seed_videos s1 (initial_outputs files)) = base_count_of files"
    by (simp add: save_seed_videos_count initial_outputs_def)
  have r2: "sample_anchor fo hp cfg files =
       (Inr (p, a, base_count_of files), s2, snd (save_seed_videos s1 (initial_outputs files)))"
    using sample_anchor_unfold[OF r1 a2] unfolding bc .
  from dense_pass_ok[OF hp an2, of fo cfg p a]
  obtain s3 where a3: "dense_pass fo hp cfg p a s2 = (Inr (), s3)"
    and w3: "wrote any_image
       (concat (map (\<lambda>t0. decode_slots (dense_order cfg t0)) (arange 0 (n_frames - 1) (T - 1))))
       s2 s3" and an3: "anchored s3" by blast
  have r3: "sample_dense fo hp cfg files =
       (Inr (p, a, base_count_of files), s3, snd (save_seed_videos s1 (initial_outputs files)))"
    by (rule sample_dense_unfold[OF r2 a3])
  have r4: "sample fo hp cfg files =
       (Inr (), s3, save_outputs (base_count_of files) s3
                      (snd (save_seed_videos s1 (initial_outputs files))))"
    by (rule sample_unfold[OF r3])
  from fr lf r1 d1 col row rest r2 g2 an2 r3 w3 an3 r4
  show ?thesis by blast
qed

subsection \<open>The filled grid\<close>

lemma valid_input_demo: "valid_input demo_helpers demo_config"
  by (simp add: valid_input_def demo_helpers_def demo_config_def n_frames_def)

lemma guarded_trace:
  assumes "guarded s s'"
  shows "\<exists>evs. trace s' = trace s @ evs \<and>
           (\<forall>(t, v)\<in>set (fill_pos evs). img_matrix s ! t ! v = None)"
proof -
  from assms obtain W where w: "wrote any_image W s s'"
    and n: "\<forall>(t, v)\<in>set W. t < n_frames \<and> v < n_views \<and> img_matrix s ! t ! v = None"
    unfolding guarded_def by blast
  from w obtain evs where "trace s' = trace s @ evs" "fill_pos evs = W"
    unfolding wrote_def by blast
  with n show ?thesis by (intro exI[of _ evs]) auto
qed

text \<open>C1: with helpers that return tensors of the expected shapes, an input video of
  \<open>n_frames = 21\<close> frames and valid angle arguments, the run raises no error, and every slot
  \<open>img_matrix[t][v]\<close> with \<open>t < n_frames\<close> and \<open>v < n_views\<close> holds an image when the dense pass
  has completed, which is the grid the run ends with.\<close>

theorem grid_full_after_dense_pass:
  assumes "helpers_ok hp" and "valid_input hp cfg"
  shows "\<exists>r s out out'. sample_dense fo hp cfg files = (Inr r, s, out) \<and>
           sample fo hp cfg files = (Inr (), s, out') \<and>
           (\<forall>t<n_frames. \<forall>v<n_views. img_matrix s ! t ! v \<noteq> None)"
  using run_ok[OF assms, of fo files]
proof (elim exE conjE)
  fix frames p a s1 s2 s3
  assume r3: "sample_dense fo hp cfg files =
       (Inr (p, a, base_count_of files), s3, snd (save_seed_videos s1 (initial_outputs files)))"
    and w3: "wrote any_image
       (concat (map (\<lambda>t0. decode_slots (dense_order cfg t0)) (arange 0 (n_frames - 1) (T - 1))))
       s2 s3" and an3: "anchored s3"
    and r4: "sample fo hp cfg files =
       (Inr (), s3, save_outputs (base_count_of files) s3
                      (snd (save_seed_videos s1 (initial_outputs files))))"
  have full: "img_matrix s3 ! t ! v \<noteq> None" if t: "t < n_frames" and v: "v < n_views" for t v
  proof (cases "t = 0 \<or> v = 0")
    case True
    then show ?thesis
    proof
      assume "t = 0"
      then have "t mod (T - 1) = 0" by simp
      from anchored_row[OF an3 t v this] show ?thesis .
    next
      assume "v = 0"
      with anchored_col[OF an3 t] show ?thesis by (simp add: v0_def)
    qed
  next
    case False
    with t v have "1 \<le> t \<and> t \<le> 20 \<and> 1 \<le> v \<and> v \<le> 8" by (simp add: model_config)
    then have "(t, v) \<in> set (concat (map (\<lambda>t0. decode_slots (dense_order cfg t0))
                     (arange 0 (n_frames - 1) (T - 1))))"
      by (simp only: dense_slots_mem)
    from wrote_slot_in[OF w3 t v this] show ?thesis by auto
  qed
  then have "\<forall>t<n_frames. \<forall>v<n_views. img_matrix s3 ! t ! v \<noteq> None" by (intro allI impI)
  with r3 r4 show ?thesis by (intro exI conjI)
qed

text \<open>C1 on the concrete instance with the default arguments.\<close>

theorem grid_full_witness:
  "helpers_ok demo_helpers \<and> valid_input demo_helpers demo_config \<and>
   (\<exists>r s out out'. sample_dense demo_float_ops demo_helpers demo_config [] = (Inr r, s, out) \<and>
           sample demo_float_ops demo_helpers demo_config [] = (Inr (), s, out') \<and>
           (\<forall>t<n_frames. \<forall>v<n_views. img_matrix s ! t ! v \<noteq> None))"
  using grid_full_after_dense_pass[OF helpers_ok_demo valid_input_demo, of demo_float_ops "[]"]
    helpers_ok_demo valid_input_demo
  by (intro conjI)

text \<open>C4: in a valid run, slot \<open>(t, 0)\<close> holds input frame \<open>t\<close> after the initialisation, after
  the anchor pass and after the dense pass, which is the end of the run; every slot that
  holds an image after the initialisation (views of frame 0, frames of view 0) holds the same
  image after each later stage; and every slot the anchor pass assigns was empty after the
  initialisation.\<close>

theorem initial_slots_never_overwritten:
  assumes "helpers_ok hp" and "valid_input hp cfg"
  shows "\<exists>frames.
     read_video hp cfg = Inr frames \<and>
     (\<forall>t<n_frames.
        img_matrix (state_of (sample_init fo hp cfg files)) ! t ! 0 = Some (frames ! t) \<and>
        img_matrix (state_of (sample_anchor fo hp cfg files)) ! t ! 0 = Some (frames ! t) \<and>
        img_matrix (state_of (sample_dense fo hp cfg files)) ! t ! 0 = Some (frames ! t) \<and>
        img_matrix (state_of (sample fo hp cfg files)) ! t ! 0 = Some (frames ! t)) \<and>
     (\<forall>t<n_frames. \<forall>v<n_views.
        img_matrix (state_of (sample_init fo hp cfg files)) ! t ! v \<noteq> None \<longrightarrow>
        img_matrix (state_of (sample_anchor fo hp cfg files)) ! t ! v
          = img_matrix (state_of (sample_init fo hp cfg files)) ! t ! v \<and>
        img_matrix (state_of (sample_dense fo hp cfg files)) ! t ! v
          = img_matrix (state_of (sample_init fo hp cfg files)) ! t ! v \<and>
        img_matrix (state_of (sample fo hp cfg files)) ! t ! v
          = img_matrix (state_of (sample_init fo hp cfg files)) ! t ! v) \<and>
     (\<exists>evs. trace (state_of (sample_anchor fo hp cfg files))
              = trace (state_of (sample_init fo hp cfg files)) @ evs \<and>
        (\<forall>(t, v)\<in>set (fill_pos evs).
           img_matrix (state_of (sample_init fo hp cfg files)) ! t ! v = None))"
  using run_ok[OF assms, of fo files]
proof (elim exE conjE)
  fix frames p a s1 s2 s3
  assume fr: "read_video hp cfg = Inr frames"
    and r1: "sample_init fo hp cfg files = (Inr (p, a), s1, initial_outputs files)"
    and col: "\<forall>t<n_frames. img_matrix s1 ! t ! v0 = Some (frames ! t)"
    and rest: "\<forall>t<n_frames. \<forall>v<n_views. t \<noteq> 0 \<and> v \<noteq> 0 \<longrightarrow> img_matrix s1 ! t ! v = None"
    and r2: "sample_anchor fo hp cfg files =
       (Inr (p, a, base_count_of files), s2, snd (save_seed_videos s1 (initial_outputs files)))"
    and g2: "guarded s1 s2"
    and r3: "sample_dense fo hp cfg files =
       (Inr (p, a, base_count_of files), s3, snd (save_seed_videos s1 (initial_outputs files)))"
    and w3: "wrote any_image
       (concat (map (\<lambda>t0. decode_slots (dense_order cfg t0)) (arange 0 (n_frames - 1) (T - 1))))
       s2 s3"
    and r4: "sample fo hp cfg files =
       (Inr (), s3, save_outputs (base_count_of files) s3
                      (snd (save_seed_videos s1 (initial_outputs files))))"
  have keep2: "img_matrix s2 ! t ! v = img_matrix s1 ! t ! v"
    if "t < n_frames" "v < n_views" "img_matrix s1 ! t ! v \<noteq> None" for t v
    using guarded_keeps[OF g2 that] .
  have keep3: "img_matrix s3 ! t ! v = img_matrix s2 ! t ! v"
    if t: "t < n_frames" and v: "v < n_views" and f: "img_matrix s1 ! t ! v \<noteq> None" for t v
  proof -
    have "t = 0 \<or> v = 0"
    proof (rule ccontr)
      assume "\<not> (t = 0 \<or> v = 0)"
      then have "t \<noteq> 0 \<and> v \<noteq> 0" by simp
      from rest[rule_format, OF t v this] f show False by simp
    qed
    then have "\<not> (1 \<le> t \<and> t \<le> 20 \<and> 1 \<le> v \<and> v \<le> 8)" by auto
    then have "(t, v) \<notin> set (concat (map (\<lambda>t0. decode_slots (dense_order cfg t0))
                     (arange 0 (n_frames - 1) (T - 1))))"
      by (simp only: dense_slots_mem) simp
    from wrote_slot_out[OF w3 t v this] show ?thesis .
  qed
  have all: "img_matrix s2 ! t ! v = img_matrix s1 ! t ! v \<and>
             img_matrix s3 ! t ! v = img_matrix s1 ! t ! v \<and>
             img_matrix s3 ! t ! v = img_matrix s1 ! t ! v"
    if "t < n_frames" "v < n_views" "img_matrix s1 ! t ! v \<noteq> None" for t v
  proof -
    have "img_matrix s3 ! t ! v = img_matrix s1 ! t ! v"
      using keep3[OF that] keep2[OF that] by (rule trans)
    with keep2[OF that] show ?thesis by (intro conjI)
  qed
  have z: "(0::nat) < n_views" by (simp add: model_config)
  have c: "img_matrix s1 ! t ! 0 = Some (frames ! t) \<and> img_matrix s2 ! t ! 0 = Some (frames ! t) \<and>
           img_matrix s3 ! t ! 0 = Some (frames ! t) \<and> img_matrix s3 ! t ! 0 = Some (frames ! t)"
    if t: "t < n_frames" for t
  proof -
    from col t have c1: "img_matrix s1 ! t ! 0 = Some (frames ! t)" by (simp add: v0_def)
    then have "img_matrix s1 ! t ! 0 \<noteq> None" by simp
    from all[OF t z this] show ?thesis unfolding c1 by (intro conjI refl) blast+
  qed
  have tr: "\<exists>evs. trace s2 = trace s1 @ evs \<and>
     (\<forall>(t, v)\<in>set (fill_pos evs). img_matrix s1 ! t ! v = None)"
    by (rule guarded_trace[OF g2])
  have A: "\<forall>t<n_frames.
        img_matrix s1 ! t ! 0 = Some (frames ! t) \<and>
        img_matrix s2 ! t ! 0 = Some (frames ! t) \<and>
        img_matrix s3 ! t ! 0 = Some (frames ! t) \<and>
        img_matrix s3 ! t ! 0 = Some (frames ! t)"
    using c by (intro allI impI)
  have B: "\<forall>t<n_frames. \<forall>v<n_views.
        img_matrix s1 ! t ! v \<noteq> None \<longrightarrow>
        img_matrix s2 ! t ! v = img_matrix s1 ! t ! v \<and>
        img_matrix s3 ! t ! v = img_matrix s1 ! t ! v \<and>
        img_matrix s3 ! t ! v = img_matrix s1 ! t ! v"
    using all by (intro allI impI)
  from fr A B tr show ?thesis
    unfolding r1 r2 r3 r4 state_of_def snd_conv fst_conv
    by (intro exI[of _ frames] conjI) assumption+
qed

text \<open>C4 on the concrete instance, whose input frames are the numbers 0..20.\<close>

theorem initial_slots_witness:
  "helpers_ok demo_helpers \<and> valid_input demo_helpers demo_config \<and>
   img_matrix (state_of (sample_init demo_float_ops demo_helpers demo_config [])) ! 20 ! 0
     = Some 20 \<and>
   img_matrix (state_of (sample demo_float_ops demo_helpers demo_config [])) ! 20 ! 0 = Some 20"
proof -
  have r: "read_video demo_helpers demo_config = Inr [0..<21]" by (simp add: demo_helpers_def)
  from initial_slots_never_overwritten[OF helpers_ok_demo valid_input_demo, of demo_float_ops "[]"]
  have "\<forall>t<n_frames.
      img_matrix (state_of (sample_init demo_float_ops demo_helpers demo_config [])) ! t ! 0
        = Some ([0..<21] ! t) \<and>
      img_matrix (state_of (sample demo_float_ops demo_helpers demo_config [])) ! t ! 0
        = Some ([0..<21] ! t)"
    unfolding r by blast
  from this[rule_format, of 20]
  have "img_matrix (state_of (sample_init demo_float_ops demo_helpers demo_config [])) ! 20 ! 0
        = Some 20 \<and>
      img_matrix (state_of (sample demo_float_ops demo_helpers demo_config [])) ! 20 ! 0 = Some 20"
    by (simp add: n_frames_def)
  with helpers_ok_demo valid_input_demo show ?thesis by blast
qed

subsection \<open>Output videos and run numbers\<close>

lemma view_suffixes:
  "map (\<lambda>v. ''_v'' @ zfill 3 (str_nat v) @ ''.mp4'') view_indices =
     [''_v001.mp4'', ''_v002.mp4'', ''_v003.mp4'', ''_v004.mp4'',
      ''_v005.mp4'', ''_v006.mp4'', ''_v007.mp4'', ''_v008.mp4'']"
  by (simp add: view_indices_eq zfill_def str_nat.simps numeral_2_eq_2)























subsection \<open>Two runs of the same input\<close>




end
